(* ===== verification/Prelude.thy ===== *)
theory Prelude
  imports Main "HOL-Library.Word"
begin

unbundle bit_operations_syntax

text \<open>
  What every component of the kernel model shares: the collections the component proofs
  feed to the simplifier, alignment and page numbers of 32-bit addresses, and the two
  shapes of C counting loops the code uses.
\<close>

named_theorems mem_simps \<open>what a load returns after a store\<close>
named_theorems frame_simps \<open>which fields an operation leaves alone\<close>
named_theorems word_bounds \<open>unat facts about 32-bit words\<close>

type_synonym u8 = "8 word"
type_synonym u16 = "16 word"
type_synonym u32 = "32 word"
type_synonym u64 = "64 word"

section \<open>Words read as naturals\<close>

lemma unat32_less [word_bounds]: "unat (a :: u32) < 4294967296"
  using unsigned_less[of a, where 'a = nat] by simp

lemma unat_of_nat_small: "n < 4294967296 \<Longrightarrow> unat (of_nat n :: u32) = n"
  by (simp add: unat_of_nat)

lemma unat_add_small: "unat a + unat b < 4294967296 \<Longrightarrow> unat (a + b :: u32) = unat a + unat b"
  by (simp add: unat_word_ariths)

lemma unat_sub_le: "unat b \<le> unat a \<Longrightarrow> unat (a - b :: u32) = unat a - unat b"
  by (simp add: unat_sub word_le_nat_alt)

lemma unat_mult_small: "unat a * unat b < 4294967296 \<Longrightarrow> unat (a * b :: u32) = unat a * unat b"
  by (simp add: unat_word_ariths)

lemma word_eq_unatI: "unat a = unat (b :: u32) \<Longrightarrow> a = b"
  by (rule word_unat_eq_iff [THEN iffD2])

lemma of_nat_inj32:
  "i < 4294967296 \<Longrightarrow> j < 4294967296 \<Longrightarrow> (of_nat i :: u32) = of_nat j \<longleftrightarrow> i = j"
  by (metis unat_of_nat_small)

lemma unat_drop_bit32: "unat (drop_bit k (a :: u32)) = unat a div 2 ^ k"
proof -
  have "unat (drop_bit k a) = drop_bit k (unat a)" by (rule unat_drop_bit_eq)
  then show ?thesis by (simp only: drop_bit_eq_div)
qed

lemma unat_take_bit32: "unat (take_bit k (a :: u32)) = unat a mod 2 ^ k"
proof -
  have "unat (take_bit k a) = take_bit k (unat a)" by (rule unsigned_take_bit_eq)
  then show ?thesis by (simp only: take_bit_eq_mod)
qed

lemma bit_one_at: "bit ((2 :: u32) ^ k) n \<longleftrightarrow> n = k \<and> n < 32"
  by (auto simp: bit_exp_iff)

section \<open>Alignment and pages\<close>

definition aligned :: "nat \<Rightarrow> u32 \<Rightarrow> bool" where
  "aligned k a \<longleftrightarrow> take_bit k a = 0"

definition page_no :: "u32 \<Rightarrow> u32" where
  "page_no a = drop_bit 12 a"

abbreviation page_aligned :: "u32 \<Rightarrow> bool" where
  "page_aligned a \<equiv> aligned 12 a"

lemma aligned_dvd: "aligned k a \<longleftrightarrow> 2 ^ k dvd unat a"
proof -
  have "take_bit k a = 0 \<longleftrightarrow> unat (take_bit k a) = 0" by (simp add: unat_eq_zero)
  then show ?thesis by (simp only: aligned_def unat_take_bit32 dvd_eq_mod_eq_0)
qed

lemma aligned_0 [simp]: "aligned k 0"
  by (simp add: aligned_def)

lemma aligned_mono: "aligned k a \<Longrightarrow> j \<le> k \<Longrightarrow> aligned j a"
  by (auto simp: aligned_dvd intro: dvd_trans [OF le_imp_power_dvd])

lemma pow2_dvd_mod32: "k \<le> 32 \<Longrightarrow> (2::nat) ^ k dvd n \<Longrightarrow> 2 ^ k dvd n mod 4294967296"
  using le_imp_power_dvd [of k 32 "2::nat"] by (simp add: dvd_mod)

lemma aligned_add: "k \<le> 32 \<Longrightarrow> aligned k a \<Longrightarrow> aligned k b \<Longrightarrow> aligned k (a + b)"
  by (simp add: aligned_dvd unat_word_ariths pow2_dvd_mod32)

lemma aligned_mult: "k \<le> 32 \<Longrightarrow> aligned k a \<Longrightarrow> aligned k (a * b)"
  by (simp add: aligned_dvd unat_word_ariths pow2_dvd_mod32)

lemma aligned_numeral: "aligned k (numeral n) \<longleftrightarrow> take_bit k (numeral n :: u32) = 0"
  by (simp add: aligned_def)

lemma unat_add_aligned:
  assumes "aligned k a" "i < 2 ^ k" "k \<le> 32"
  shows "unat (a + of_nat i) = unat a + i"
proof -
  obtain q where q: "unat a = 2 ^ k * q" using assms(1) by (auto simp: aligned_dvd)
  have p: "(2::nat) ^ 32 = 2 ^ k * 2 ^ (32 - k)" using assms(3) by (simp flip: power_add)
  have "2 ^ k * q < (2::nat) ^ k * 2 ^ (32 - k)" using unat32_less[of a] q p by simp
  then have "q + 1 \<le> 2 ^ (32 - k)" by simp
  then have "(2::nat) ^ k * (q + 1) \<le> 2 ^ 32" unfolding p by (rule mult_le_mono2)
  then have "unat a + i < 2 ^ 32" using assms(2) q by simp
  then show ?thesis by (simp add: unat_word_ariths unat_of_nat)
qed

lemma drop_bit_add_aligned:
  assumes "aligned k a" "i < 2 ^ k" "k \<le> 32"
  shows "drop_bit k (a + of_nat i) = drop_bit k a"
proof (rule word_eq_unatI)
  have "unat (drop_bit k (a + of_nat i)) = (unat a + i) div 2 ^ k"
    by (simp only: unat_drop_bit32 unat_add_aligned [OF assms])
  also have "\<dots> = unat a div 2 ^ k"
    using assms(1,2) by (auto simp: aligned_dvd)
  finally show "unat (drop_bit k (a + of_nat i)) = unat (drop_bit k a)"
    by (simp only: unat_drop_bit32)
qed

text \<open>The last unit of a given alignment still fits below the top of the address space.\<close>

lemma aligned_top: "aligned k a \<Longrightarrow> k \<le> 32 \<Longrightarrow> unat a + 2 ^ k \<le> 4294967296"
proof -
  assume a: "aligned k a" and k: "k \<le> 32"
  have "unat (a + of_nat (2 ^ k - 1)) = unat a + (2 ^ k - 1)"
    by (rule unat_add_aligned [OF a _ k]) simp
  then show ?thesis using unat32_less [of "a + of_nat (2 ^ k - 1)"] by simp
qed

lemma aligned_eqI: "aligned k a \<Longrightarrow> aligned k b \<Longrightarrow> drop_bit k a = drop_bit k b \<Longrightarrow> a = b"
  by (metis aligned_def bits_ident)

lemma page_no_add [simp]: "page_aligned a \<Longrightarrow> i < 4096 \<Longrightarrow> page_no (a + of_nat i) = page_no a"
  by (simp add: page_no_def drop_bit_add_aligned)

lemma page_no_eq: "page_aligned a \<Longrightarrow> page_aligned b \<Longrightarrow> page_no a = page_no b \<longleftrightarrow> a = b"
  by (auto simp: page_no_def intro: aligned_eqI)

lemma unat_page_no: "unat (page_no a) = unat a div 4096"
  by (simp add: page_no_def unat_drop_bit32)

section \<open>Counting loops\<close>

text \<open>
  \<^verbatim>\<open>for (uint32_t i = 0; i < n; i++) s = f(i, s);\<close> with a bound the body does not change.
\<close>

definition for_lt :: "u32 \<Rightarrow> (u32 \<Rightarrow> 's \<Rightarrow> 's) \<Rightarrow> 's \<Rightarrow> 's" where
  "for_lt n f s = fold (\<lambda>i. f (of_nat i)) [0..<unat n] s"

text \<open>
  \<^verbatim>\<open>for (uint32_t i = 0; i < n && c(i); i++) s = f(i, s);\<close>: the first argument counts the
  iterations that \<^verbatim>\<open>i < n\<close> still allows, the second is \<^verbatim>\<open>i\<close>.
\<close>

fun for_guard :: "nat \<Rightarrow> u32 \<Rightarrow> (u32 \<Rightarrow> bool) \<Rightarrow> (u32 \<Rightarrow> 's \<Rightarrow> 's) \<Rightarrow> 's \<Rightarrow> 's" where
  "for_guard 0 i c f s = s"
| "for_guard (Suc k) i c f s = (if c i then for_guard k (i + 1) c f (f i s) else s)"

lemma for_lt_0 [simp]: "for_lt 0 f s = s"
  by (simp add: for_lt_def)

lemma fold_upt_invariant:
  assumes "P 0 s" "\<And>i s. i < n \<Longrightarrow> P i s \<Longrightarrow> P (Suc i) (f i s)"
  shows "P n (fold f [0..<n] s)"
  using assms
proof (induction n)
  case 0
  then show ?case by simp
next
  case (Suc n)
  then have "P n (fold f [0..<n] s)" by simp
  with Suc.prems(2)[of n] show ?case by simp
qed

lemma for_lt_invariant:
  assumes "P 0 s" "\<And>i s. i < unat n \<Longrightarrow> P i s \<Longrightarrow> P (Suc i) (f (of_nat i) s)"
  shows "P (unat n) (for_lt n f s)"
  unfolding for_lt_def using assms by (rule fold_upt_invariant [where P = P])

text \<open>A loop whose body keeps a property keeps it.\<close>

lemma for_lt_preserves:
  assumes "P s" "\<And>i s. P s \<Longrightarrow> P (f i s)"
  shows "P (for_lt n f s)"
  using for_lt_invariant [where P = "\<lambda>_. P" and s = s and f = f and n = n] assms by blast

lemma for_guard_preserves:
  assumes "P s" "\<And>i s. P s \<Longrightarrow> P (f i s)"
  shows "P (for_guard k i c f s)"
  using assms by (induction k arbitrary: i s) auto

text \<open>A guard that is true on a prefix of the indices cuts the loop there.\<close>

lemma for_guard_fold:
  assumes "\<And>j. j < m \<Longrightarrow> c (i + of_nat j)" "m \<le> k" "m < k \<Longrightarrow> \<not> c (i + of_nat m)"
  shows "for_guard k i c f s = fold (\<lambda>j. f (i + of_nat j)) [0..<m] s"
  using assms
proof (induction k arbitrary: i s m)
  case 0
  then show ?case by simp
next
  case (Suc k)
  show ?case
  proof (cases m)
    case 0
    with Suc.prems(3) show ?thesis by simp
  next
    case (Suc m')
    have c: "c i" using Suc.prems(1)[of 0] Suc by simp
    have "for_guard k (i + 1) c f (f i s) = fold (\<lambda>j. f (i + 1 + of_nat j)) [0..<m'] (f i s)"
    proof (rule Suc.IH)
      show "c (i + 1 + of_nat j)" if "j < m'" for j
        using Suc.prems(1)[of "Suc j"] that Suc by (simp add: add.assoc)
      show "m' \<le> k" using Suc.prems(2) Suc by simp
      show "\<not> c (i + 1 + of_nat m')" if "m' < k"
        using Suc.prems(3) that Suc by (simp add: add.assoc)
    qed
    also have "\<dots> = fold (\<lambda>j. f (i + of_nat j)) (map Suc [0..<m']) (f i s)"
      by (simp add: fold_map o_def add.assoc)
    also have "\<dots> = fold (\<lambda>j. f (i + of_nat j)) [0..<m] s"
      unfolding map_Suc_upt Suc using upt_conv_Cons[of 0 "Suc m'"] by simp
    finally show ?thesis using c by simp
  qed
qed

end
