(* ===== verification/Memory.thy ===== *)
theory Memory
  imports Prelude
begin

text \<open>
  Physical memory as the kernel's pointers see it: one byte per 32-bit address, 32- and
  64-bit cells stored little-endian over it. The component theories never look at bytes:
  they use the cell laws of the locale \<open>cell_store\<close>, interpreted here for both widths,
  and the page laws derived from them. The two zeroing loops that
  \<^verbatim>\<open>src/src/memory/pmm.c\<close> and \<^verbatim>\<open>src/src/memory/paging.c\<close> share are characterised
  byte by byte.
\<close>

type_synonym memory = "u32 \<Rightarrow> u8"

definition load32 :: "memory \<Rightarrow> u32 \<Rightarrow> u32" where
  "load32 m a = ucast (m a) OR push_bit 8 (ucast (m (a + 1)))
     OR push_bit 16 (ucast (m (a + 2))) OR push_bit 24 (ucast (m (a + 3)))"

definition store32 :: "u32 \<Rightarrow> u32 \<Rightarrow> memory \<Rightarrow> memory" where
  "store32 a v m = m(a := ucast v, a + 1 := ucast (drop_bit 8 v),
     a + 2 := ucast (drop_bit 16 v), a + 3 := ucast (drop_bit 24 v))"

definition load64 :: "memory \<Rightarrow> u32 \<Rightarrow> u64" where
  "load64 m a = ucast (load32 m a) OR push_bit 32 (ucast (load32 m (a + 4)))"

definition store64 :: "u32 \<Rightarrow> u64 \<Rightarrow> memory \<Rightarrow> memory" where
  "store64 a v m = store32 (a + 4) (ucast (drop_bit 32 v)) (store32 a (ucast v) m)"

text \<open>The addresses a cell of \<open>n\<close> bytes at \<open>a\<close> occupies.\<close>

definition span :: "u32 \<Rightarrow> nat \<Rightarrow> u32 set" where
  "span a n = (\<lambda>i. a + of_nat i) ` {..<n}"

section \<open>Bytes of a cell\<close>

lemma span4: "span a 4 = {a, a + 1, a + 2, a + 3}"
  by (auto simp: span_def lessThan_nat_numeral lessThan_Suc numeral_eq_Suc)

lemma span8: "span a 8 = span a 4 \<union> span (a + 4) 4"
proof -
  have "{..<8::nat} = {..<4} \<union> (\<lambda>i. 4 + i) ` {..<4}"
  proof (rule set_eqI)
    fix x :: nat
    show "x \<in> {..<8} \<longleftrightarrow> x \<in> {..<4} \<union> (\<lambda>i. 4 + i) ` {..<4}"
      by (cases "x < 4") (auto simp: image_iff intro!: bexI [of _ "x - 4"])
  qed
  then show ?thesis by (simp add: span_def image_Un image_image add.assoc)
qed

lemma bytes_of_word32:
  fixes v :: u32
  shows "ucast (ucast v :: u8) OR push_bit 8 (ucast (ucast (drop_bit 8 v) :: u8))
     OR push_bit 16 (ucast (ucast (drop_bit 16 v) :: u8))
     OR push_bit 24 (ucast (ucast (drop_bit 24 v) :: u8)) = v"
proof (rule bit_word_eqI)
  fix n assume "n < LENGTH(32)"
  then consider "n < 8" | "8 \<le> n" "n < 16" | "16 \<le> n" "n < 24" | "24 \<le> n" "n < 32"
    by fastforce
  then show "bit (ucast (ucast v :: u8) OR push_bit 8 (ucast (ucast (drop_bit 8 v) :: u8))
     OR push_bit 16 (ucast (ucast (drop_bit 16 v) :: u8))
     OR push_bit 24 (ucast (ucast (drop_bit 24 v) :: u8)) :: u32) n = bit v n"
    by cases (auto simp: bit_simps)
qed

lemma load32_store32: "load32 (store32 a v m) a = v"
proof -
  have "a + 1 \<noteq> a" "a + 2 \<noteq> a" "a + 3 \<noteq> a" by auto
  then show ?thesis
    using bytes_of_word32[of v] by (simp add: load32_def store32_def)
qed

lemma store32_frame: "x \<notin> span a 4 \<Longrightarrow> store32 a v m x = m x"
  by (simp add: span4 store32_def)

lemma load32_cong: "\<forall>x\<in>span a 4. m x = m' x \<Longrightarrow> load32 m a = load32 m' a"
  by (simp add: span4 load32_def)

lemma store64_frame: "x \<notin> span a 8 \<Longrightarrow> store64 a v m x = m x"
  by (simp add: span8 store64_def store32_frame)

lemma load64_cong: "\<forall>x\<in>span a 8. m x = m' x \<Longrightarrow> load64 m a = load64 m' a"
  unfolding load64_def using load32_cong[of a m m'] load32_cong[of "a + 4" m m']
  by (simp add: span8)

lemma halves_of_word64:
  fixes v :: u64
  shows "ucast (ucast v :: u32) OR push_bit 32 (ucast (ucast (drop_bit 32 v) :: u32)) = v"
  by (rule bit_word_eqI) (auto simp: bit_simps)

lemma load64_store64: "load64 (store64 a v m) a = v"
proof -
  have "span a 4 \<inter> span (a + 4) 4 = {}" by (auto simp: span4)
  then have "load32 (store64 a v m) a = load32 (store32 a (ucast v) m) a"
    unfolding store64_def by (intro load32_cong ballI store32_frame) auto
  then show ?thesis
    using halves_of_word64[of v] by (simp add: load64_def load32_store32 store64_def)
qed

section \<open>The cell interface\<close>

text \<open>
  What a client of memory relies on: a cell reads back what was stored, a store changes only
  the bytes of its cell, a load depends only on the bytes of its cell. \<open>sz\<close> is the logarithm
  of the cell's size in bytes.
\<close>

locale cell_store =
  fixes ld :: "memory \<Rightarrow> u32 \<Rightarrow> 'v" and st :: "u32 \<Rightarrow> 'v \<Rightarrow> memory \<Rightarrow> memory" and sz :: nat
  assumes sz_le: "sz \<le> 12"
    and ld_st: "ld (st a v m) a = v"
    and st_frame: "x \<notin> span a (2 ^ sz) \<Longrightarrow> st a v m x = m x"
    and ld_cong: "\<forall>x\<in>span a (2 ^ sz). m x = m' x \<Longrightarrow> ld m a = ld m' a"
begin

lemma span_drop_bit: "aligned sz a \<Longrightarrow> x \<in> span a (2 ^ sz) \<Longrightarrow> drop_bit sz x = drop_bit sz a"
  using sz_le by (auto simp: span_def drop_bit_add_aligned)

lemma span_page: "aligned sz a \<Longrightarrow> x \<in> span a (2 ^ sz) \<Longrightarrow> page_no x = page_no a"
proof -
  assume "aligned sz a" "x \<in> span a (2 ^ sz)"
  then have "drop_bit (12 - sz) (drop_bit sz x) = drop_bit (12 - sz) (drop_bit sz a)"
    by (simp only: span_drop_bit)
  then show "page_no x = page_no a" using sz_le by (simp add: page_no_def)
qed

text \<open>Two aligned cells are the same cell or disjoint.\<close>

lemma ld_st_other: "aligned sz a \<Longrightarrow> aligned sz b \<Longrightarrow> a \<noteq> b \<Longrightarrow> ld (st b v m) a = ld m a"
proof (rule ld_cong, rule ballI, rule st_frame)
  fix x assume a: "aligned sz a" and b: "aligned sz b" and "a \<noteq> b" and x: "x \<in> span a (2 ^ sz)"
  show "x \<notin> span b (2 ^ sz)"
  proof
    assume "x \<in> span b (2 ^ sz)"
    then have "drop_bit sz a = drop_bit sz b"
      using span_drop_bit [OF a x] span_drop_bit [OF b, of x] by simp
    with aligned_eqI [OF a b] \<open>a \<noteq> b\<close> show False by simp
  qed
qed

lemma ld_st_if: "aligned sz a \<Longrightarrow> aligned sz b \<Longrightarrow> ld (st b v m) a = (if a = b then v else ld m a)"
  by (simp add: ld_st ld_st_other)

text \<open>A store changes one page, a load looks at one page.\<close>

lemma st_page: "aligned sz a \<Longrightarrow> page_no x \<noteq> page_no a \<Longrightarrow> st a v m x = m x"
  using span_page by (blast intro: st_frame)

lemma ld_page: "aligned sz a \<Longrightarrow> (\<And>x. page_no x = page_no a \<Longrightarrow> m x = m' x) \<Longrightarrow> ld m a = ld m' a"
  using span_page by (blast intro: ld_cong)

lemma ld_st_page: "aligned sz a \<Longrightarrow> aligned sz b \<Longrightarrow> page_no a \<noteq> page_no b \<Longrightarrow> ld (st b v m) a = ld m a"
  by (rule ld_st_other) auto

end

interpretation w32: cell_store load32 store32 2
  by unfold_locales (simp_all add: load32_store32 store32_frame load32_cong)

interpretation w64: cell_store load64 store64 3
  by unfold_locales (simp_all add: load64_store64 store64_frame load64_cong)

lemmas [mem_simps] = w32.ld_st w64.ld_st w32.ld_st_if w64.ld_st_if

section \<open>Element addresses\<close>

text \<open>
  Entry \<open>i\<close> of an array of 4- or 8-byte cells that starts at a page boundary: 1024 and 512
  entries fit the page.
\<close>

lemma elem4_aligned: "page_aligned p \<Longrightarrow> aligned 2 (p + 4 * i)"
  by (intro aligned_add aligned_mult) (auto simp: aligned_numeral intro: aligned_mono)

lemma elem8_aligned: "page_aligned p \<Longrightarrow> aligned 3 (p + 8 * i)"
  by (intro aligned_add aligned_mult) (auto simp: aligned_numeral intro: aligned_mono)

lemma elem4_of_nat: "p + 4 * i = p + of_nat (4 * unat i)" for p i :: u32
  by simp

lemma elem8_of_nat: "p + 8 * i = p + of_nat (8 * unat i)" for p i :: u32
  by simp

lemma elem4_page: "page_aligned p \<Longrightarrow> unat i < 1024 \<Longrightarrow> page_no (p + 4 * i) = page_no p"
  unfolding elem4_of_nat by (rule page_no_add) auto

lemma elem8_page: "page_aligned p \<Longrightarrow> unat i < 512 \<Longrightarrow> page_no (p + 8 * i) = page_no p"
  unfolding elem8_of_nat by (rule page_no_add) auto

lemma elem4_inj: "unat i < 1024 \<Longrightarrow> unat j < 1024 \<Longrightarrow> p + 4 * i = p + 4 * j \<longleftrightarrow> i = j" for p i j :: u32
proof -
  assume "unat i < 1024" "unat j < 1024"
  then have "unat (4 * i) = 4 * unat i" "unat (4 * j) = 4 * unat j"
    by (simp_all add: unat_mult_small)
  then show ?thesis by (metis add_left_imp_eq mult_left_cancel word_eq_unatI zero_neq_numeral)
qed

lemma elem8_inj: "unat i < 512 \<Longrightarrow> unat j < 512 \<Longrightarrow> p + 8 * i = p + 8 * j \<longleftrightarrow> i = j" for p i j :: u32
proof -
  assume "unat i < 512" "unat j < 512"
  then have "unat (8 * i) = 8 * unat i" "unat (8 * j) = 8 * unat j"
    by (simp_all add: unat_mult_small)
  then show ?thesis by (metis add_left_imp_eq mult_left_cancel word_eq_unatI zero_neq_numeral)
qed

section \<open>Zeroing loops\<close>

text \<open>\<^verbatim>\<open>for (i = 0; i < n; i++) ptr[i] = 0;\<close> over 32-bit words.\<close>

definition zero_words :: "u32 \<Rightarrow> u32 \<Rightarrow> memory \<Rightarrow> memory" where
  "zero_words n p m = for_lt n (\<lambda>i. store32 (p + 4 * i) 0) m"

text \<open>The address range \<open>[a, a + n)\<close>, which does not wrap.\<close>

definition in_range :: "u32 \<Rightarrow> nat \<Rightarrow> u32 \<Rightarrow> bool" where
  "in_range a n x \<longleftrightarrow> unat a \<le> unat x \<and> unat x < unat a + n"

lemma store32_zero_range:
  assumes "unat a + 4 \<le> 4294967296"
  shows "store32 a 0 m = (\<lambda>x. if in_range a 4 x then 0 else m x)"
proof
  fix x
  have "x = a \<or> x = a + 1 \<or> x = a + 2 \<or> x = a + 3 \<longleftrightarrow> in_range a 4 x"
    unfolding in_range_def word_unat_eq_iff using assms
    by (auto simp: unat_add_small)
  then show "store32 a 0 m x = (if in_range a 4 x then 0 else m x)"
    by (auto simp: store32_def)
qed

lemma zero_words_range:
  assumes "unat p + 4 * unat n \<le> 4294967296"
  shows "zero_words n p m = (\<lambda>x. if in_range p (4 * unat n) x then 0 else m x)"
  unfolding zero_words_def
proof (rule for_lt_invariant [where P = "\<lambda>i m'. m' = (\<lambda>x. if in_range p (4 * i) x then 0 else m x)"])
  show "m = (\<lambda>x. if in_range p (4 * 0) x then 0 else m x)"
    by (auto simp: in_range_def fun_eq_iff)
next
  fix i m' assume i: "i < unat n" and m': "m' = (\<lambda>x. if in_range p (4 * i) x then 0 else m x)"
  have u: "unat (p + 4 * of_nat i) = unat p + 4 * i"
    using i assms by (simp add: unat_word_ariths unat_of_nat)
  then show "store32 (p + 4 * of_nat i) 0 m' = (\<lambda>x. if in_range p (4 * Suc i) x then 0 else m x)"
    using i assms by (subst store32_zero_range) (auto simp: m' in_range_def fun_eq_iff)
qed

lemma in_range_pages:
  assumes "page_aligned p" "unat p + 4096 * n \<le> 4294967296"
  shows "in_range p (4096 * n) x \<longleftrightarrow> unat (page_no p) \<le> unat (page_no x) \<and> unat (page_no x) < unat (page_no p) + n"
proof -
  obtain q where "unat p = 4096 * q" using assms(1) by (auto simp: aligned_dvd)
  then show ?thesis by (auto simp: in_range_def unat_page_no less_mult_imp_div_less div_less_iff_less_mult)
qed

lemma zero_page:
  assumes "page_aligned p"
  shows "zero_words 1024 p m = (\<lambda>x. if page_no x = page_no p then 0 else m x)"
proof -
  have "unat p + 4096 * 1 \<le> 4294967296" using aligned_top [OF assms] by simp
  then show ?thesis using in_range_pages [OF assms, of 1]
    by (subst zero_words_range) (auto simp: fun_eq_iff word_unat_eq_iff)
qed

lemma load32_zero: "(\<And>x. x \<in> span a 4 \<Longrightarrow> m x = 0) \<Longrightarrow> load32 m a = 0"
  by (simp add: load32_def span4)

lemma load64_zero: "(\<And>x. x \<in> span a 8 \<Longrightarrow> m x = 0) \<Longrightarrow> load64 m a = 0"
  by (simp add: load64_def span8 load32_zero)

lemma load32_zero_page: "page_aligned p \<Longrightarrow> aligned 2 a \<Longrightarrow> page_no a = page_no p \<Longrightarrow> load32 (zero_words 1024 p m) a = 0"
  using w32.span_page by (intro load32_zero) (simp add: zero_page)

lemma load64_zero_page: "page_aligned p \<Longrightarrow> aligned 3 a \<Longrightarrow> page_no a = page_no p \<Longrightarrow> load64 (zero_words 1024 p m) a = 0"
  using w64.span_page by (intro load64_zero) (simp add: zero_page)

end
