(* ===== verification/Console.thy ===== *)
theory Console
  imports Prelude "HOL-Library.Monad_Syntax"
begin

text \<open>
  The text console of \<^verbatim>\<open>src/src/lib/kprintf.c\<close>: the cursor, the VGA text buffer, scrolling,
  the hardware cursor and the formatted output on top of \<open>kputchar\<close>.

  The text buffer at \<^verbatim>\<open>0xb8000\<close> is a function from the byte offset to the byte, defined on
  every offset, so that a write outside the 4000 bytes of the screen would show. The writes
  to the CRT controller's ports are recorded in order. A \<open>kprintf\<close> that the C code would
  carry into undefined behaviour (a buffer of 32 characters overrun, a format read past its
  terminator, an argument that is missing or of another kind) is \<open>None\<close>.
\<close>

section \<open>The screen\<close>

abbreviation (input) VGA_WIDTH :: int where "VGA_WIDTH \<equiv> 80"
abbreviation (input) VGA_HEIGHT :: int where "VGA_HEIGHT \<equiv> 25"

record console =
  video :: "int \<Rightarrow> u8"
  kprint_x :: int
  kprint_y :: int
  crtc :: "(u16 \<times> u8) list"

definition vput :: "int \<Rightarrow> u8 \<Rightarrow> (int \<Rightarrow> u8) \<Rightarrow> int \<Rightarrow> u8" where
  "vput pos v vid = vid(pos := v)"

text \<open>One iteration of the copy loop: character and attribute of a cell of the line below.\<close>

definition scroll_cell :: "int \<Rightarrow> int \<Rightarrow> (int \<Rightarrow> u8) \<Rightarrow> int \<Rightarrow> u8" where
  "scroll_cell line col vid =
     (let dest_pos = (line * VGA_WIDTH + col) * 2;
          src_pos = ((line + 1) * VGA_WIDTH + col) * 2;
          vid' = vput dest_pos (vid src_pos) vid
      in vput (dest_pos + 1) (vid' (src_pos + 1)) vid')"

definition clear_cell :: "int \<Rightarrow> (int \<Rightarrow> u8) \<Rightarrow> int \<Rightarrow> u8" where
  "clear_cell pos vid = vput (pos + 1) 0x07 (vput pos 0x20 vid)"

definition scroll_screen :: "console \<Rightarrow> console" where
  "scroll_screen c =
     (let moved = fold (\<lambda>line. fold (scroll_cell line) [0..VGA_WIDTH - 1])
                    [0..VGA_HEIGHT - 2] (video c);
          cleared = fold (\<lambda>col. clear_cell (((VGA_HEIGHT - 1) * VGA_WIDTH + col) * 2))
                      [0..VGA_WIDTH - 1] moved
      in c\<lparr>video := cleared\<rparr>)"

definition update_hardware_cursor :: "console \<Rightarrow> console" where
  "update_hardware_cursor c =
     (let position = of_int (kprint_y c * VGA_WIDTH + kprint_x c) :: u16
      in c\<lparr>crtc := crtc c @
           [(0x3D4, 0x0E), (0x3D5, ucast (drop_bit 8 position)),
            (0x3D4, 0x0F), (0x3D5, ucast (position AND 0xFF))]\<rparr>)"

definition kputchar :: "char \<Rightarrow> console \<Rightarrow> console" where
  "kputchar ch c =
     (let c1 =
        (if ch = CHR 0x0A then c\<lparr>kprint_x := 0, kprint_y := kprint_y c + 1\<rparr>
         else if ch = CHR 0x08 then
           (let c' = (if kprint_x c > 0 then c\<lparr>kprint_x := kprint_x c - 1\<rparr>
                      else if kprint_y c > 0
                      then c\<lparr>kprint_y := kprint_y c - 1, kprint_x := VGA_WIDTH - 1\<rparr>
                      else c);
                pos = (kprint_y c' * VGA_WIDTH + kprint_x c') * 2
            in c'\<lparr>video := clear_cell pos (video c')\<rparr>)
         else
           (let pos = (kprint_y c * VGA_WIDTH + kprint_x c) * 2;
                c' = c\<lparr>video := vput (pos + 1) 0x07 (vput pos (of_char ch) (video c)),
                       kprint_x := kprint_x c + 1\<rparr>
            in if kprint_x c' \<ge> VGA_WIDTH
               then c'\<lparr>kprint_x := 0, kprint_y := kprint_y c' + 1\<rparr> else c'));
       c2 = (if kprint_y c1 \<ge> VGA_HEIGHT
             then (scroll_screen c1)\<lparr>kprint_y := VGA_HEIGHT - 1\<rparr> else c1)
      in update_hardware_cursor c2)"

definition kclear_screen :: "console \<Rightarrow> console" where
  "kclear_screen c =
     update_hardware_cursor
       (c\<lparr>video := fold (\<lambda>k. clear_cell (2 * k)) [0..VGA_WIDTH * VGA_HEIGHT - 1] (video c),
          kprint_x := 0, kprint_y := 0\<rparr>)"

definition kset_cursor_position :: "int \<Rightarrow> int \<Rightarrow> console \<Rightarrow> console" where
  "kset_cursor_position x y c =
     (if x \<ge> 0 \<and> x < VGA_WIDTH \<and> y \<ge> 0 \<and> y < VGA_HEIGHT
      then update_hardware_cursor (c\<lparr>kprint_x := x, kprint_y := y\<rparr>) else c)"

section \<open>Formatted output\<close>

text \<open>
  An argument slot of the variable argument list: a 32-bit value (integers, pointers, the
  halves of a 64-bit integer) or a pointer to a string, \<open>None\<close> for the null pointer.
\<close>

datatype karg = KInt u32 | KStr "string option"

definition digit_set :: "bool \<Rightarrow> string" where
  "digit_set uppercase = (if uppercase then ''0123456789ABCDEF'' else ''0123456789abcdef'')"

text \<open>
  \<^verbatim>\<open>while (num > 0) { buffer[i++] = digit_set[num % base]; num /= base; }\<close>: the first argument
  is the room left in \<^verbatim>\<open>buffer\<close>, the last the characters stored so far.
\<close>

fun digit_loop :: "nat \<Rightarrow> u32 \<Rightarrow> u32 \<Rightarrow> bool \<Rightarrow> string \<Rightarrow> string option" where
  "digit_loop room num base uppercase buffer =
     (if num > 0 then
        (case room of 0 \<Rightarrow> None
         | Suc room' \<Rightarrow> digit_loop room' (num div base) base uppercase
             (buffer @ [digit_set uppercase ! unat (num mod base)]))
      else Some buffer)"

text \<open>\<^verbatim>\<open>while (i > 0) kputchar(buffer[--i]);\<close>\<close>

definition put_reversed :: "string \<Rightarrow> console \<Rightarrow> console" where
  "put_reversed buffer c = fold kputchar (rev buffer) c"

definition kprint_unsigned :: "u32 \<Rightarrow> u32 \<Rightarrow> bool \<Rightarrow> console \<Rightarrow> console option" where
  "kprint_unsigned num base uppercase c =
     (if num = 0 then Some (kputchar (CHR ''0'') c)
      else do { buffer \<leftarrow> digit_loop 32 num base uppercase []; Some (put_reversed buffer c) })"

definition kprint_number :: "u32 \<Rightarrow> u32 \<Rightarrow> bool \<Rightarrow> console \<Rightarrow> console option" where
  "kprint_number num base uppercase c =
     (if sint num < 0 then kprint_unsigned (- num) base uppercase (kputchar (CHR ''-'') c)
      else kprint_unsigned num base uppercase c)"

text \<open>\<^verbatim>\<open>while (i < padding) buffer[i++] = '0';\<close> in a buffer of 32 characters.\<close>

definition pad_buffer :: "int \<Rightarrow> string \<Rightarrow> string option" where
  "pad_buffer padding buffer =
     (if int (length buffer) < padding
      then (if padding \<le> 32 then Some (buffer @ replicate (nat padding - length buffer) (CHR ''0''))
            else None)
      else Some buffer)"

definition kprint_unsigned_padded :: "u32 \<Rightarrow> u32 \<Rightarrow> bool \<Rightarrow> int \<Rightarrow> console \<Rightarrow> console option" where
  "kprint_unsigned_padded num base uppercase padding c =
     do { buffer \<leftarrow> (if num = 0 then Some [CHR ''0''] else digit_loop 32 num base uppercase []);
          padded \<leftarrow> pad_buffer padding buffer;
          Some (put_reversed padded c) }"

definition kprint_number_padded :: "u32 \<Rightarrow> u32 \<Rightarrow> int \<Rightarrow> console \<Rightarrow> console option" where
  "kprint_number_padded num base padding c =
     (if sint num < 0
      then kprint_unsigned_padded (- num) base False (padding - 1) (kputchar (CHR ''-'') c)
      else kprint_unsigned_padded num base False padding c)"

definition is_digit :: "char \<Rightarrow> bool" where
  "is_digit ch \<longleftrightarrow> 48 \<le> (of_char ch :: nat) \<and> (of_char ch :: nat) \<le> 57"

text \<open>\<^verbatim>\<open>padding = padding * 10 + (*format - '0')\<close> over a run of digits.\<close>

definition parse_padding :: "string \<Rightarrow> int" where
  "parse_padding ds = foldl (\<lambda>p d. p * 10 + (int (of_char d) - 48)) 0 ds"

text \<open>
  The conversion after \<^verbatim>\<open>%\<close>, without the \<^verbatim>\<open>0\<close> branch: the character printed and the rest of
  the arguments.
\<close>

definition kprintf_conv :: "char \<Rightarrow> karg list \<Rightarrow> console \<Rightarrow> (karg list \<times> console) option" where
  "kprintf_conv d args c =
     (if d = CHR ''d'' then
        (case args of KInt n # as \<Rightarrow> map_option (Pair as) (kprint_number n 10 False c) | _ \<Rightarrow> None)
      else if d = CHR ''u'' then
        (case args of KInt n # as \<Rightarrow> map_option (Pair as) (kprint_unsigned n 10 False c) | _ \<Rightarrow> None)
      else if d = CHR ''x'' then
        (case args of KInt n # as \<Rightarrow> map_option (Pair as) (kprint_unsigned n 16 False c) | _ \<Rightarrow> None)
      else if d = CHR ''X'' then
        (case args of KInt n # as \<Rightarrow> map_option (Pair as) (kprint_unsigned n 16 True c) | _ \<Rightarrow> None)
      else if d = CHR ''p'' then
        (case args of KInt n # as \<Rightarrow>
           map_option (Pair as) (kprint_unsigned n 16 False (kputchar (CHR ''x'') (kputchar (CHR ''0'') c)))
         | _ \<Rightarrow> None)
      else if d = CHR ''c'' then
        (case args of KInt n # as \<Rightarrow> Some (as, kputchar (char_of (unat (ucast n :: u8))) c) | _ \<Rightarrow> None)
      else if d = CHR ''s'' then
        (case args of KStr (Some str) # as \<Rightarrow> Some (as, fold kputchar str c)
         | KStr None # as \<Rightarrow> Some (as, fold kputchar ''(null)'' c) | _ \<Rightarrow> None)
      else if d = CHR ''%'' then Some (args, kputchar (CHR ''%'') c)
      else Some (args, kputchar d (kputchar (CHR ''%'') c)))"

text \<open>The conversion after \<^verbatim>\<open>%0\<close> and the digits of the padding.\<close>

definition kprintf_padded :: "char \<Rightarrow> int \<Rightarrow> karg list \<Rightarrow> console \<Rightarrow> (karg list \<times> console) option" where
  "kprintf_padded e padding args c =
     (if e = CHR ''x'' then
        (case args of KInt n # as \<Rightarrow> map_option (Pair as) (kprint_unsigned_padded n 16 False padding c) | _ \<Rightarrow> None)
      else if e = CHR ''X'' then
        (case args of KInt n # as \<Rightarrow> map_option (Pair as) (kprint_unsigned_padded n 16 True padding c) | _ \<Rightarrow> None)
      else if e = CHR ''d'' then
        (case args of KInt n # as \<Rightarrow> map_option (Pair as) (kprint_number_padded n 10 padding c) | _ \<Rightarrow> None)
      else Some (args, c))"

function kprintf :: "string \<Rightarrow> karg list \<Rightarrow> console \<Rightarrow> console option" where
  "kprintf [] args c = Some c"
| "kprintf (f # format) args c =
     (if f \<noteq> CHR ''%'' then kprintf format args (kputchar f c)
      else (case format of
          [] \<Rightarrow> None
        | d # format' \<Rightarrow>
            (if d = CHR ''0'' then
               (let padding = parse_padding (takeWhile is_digit format')
                in case dropWhile is_digit format' of
                     [] \<Rightarrow> None
                   | e # format'' \<Rightarrow>
                       (if padding > 2147483647 then None
                        else (case kprintf_padded e padding args c of
                                None \<Rightarrow> None
                              | Some (as, c') \<Rightarrow> kprintf format'' as c')))
             else (case kprintf_conv d args c of
                     None \<Rightarrow> None
                   | Some (as, c') \<Rightarrow> kprintf format' as c'))))"
  by pat_completeness auto
termination
proof (relation "measure (\<lambda>(format, args, c). length format)", goal_cases)
  case (3 f format args c d format' padding e format'' pr as c')
  then have "length (dropWhile is_digit format') = Suc (length format'')" by simp
  then show ?case using 3 length_dropWhile_le[of is_digit format'] by simp
qed auto
end
