(* ===== verification/Console_Screen.thy ===== *)
theory Console_Screen
  imports Console
begin

text \<open>
  The screen half of the console: what the scroll loops compute, the cursor invariant, the
  bounds of the writes to the text buffer, and the refinement of \<open>kputchar\<close> to a terminal
  of 2000 character cells with one cursor index.
\<close>

section \<open>The loops over the text buffer\<close>

lemma upto_map_int: "[0..int n - 1] = map int [0..<n]"
proof (induction n)
  case 0
  then show ?case by simp
next
  case (Suc n)
  have "[0..int (Suc n) - 1] = [0..int n - 1] @ [int n]"
    using upto_rec2 [of 0 "int n"] by simp
  then show ?case using Suc by simp
qed

lemma fold_upto_invariant:
  assumes "P 0 s" "\<And>i s. i < n \<Longrightarrow> P i s \<Longrightarrow> P (Suc i) (f (int i) s)"
  shows "P n (fold f [0..int n - 1] s)"
  unfolding upto_map_int fold_map o_def using assms by (rule fold_upt_invariant [where P = P])

lemma scroll_cell_eq:
  "scroll_cell l k v = v(160 * l + 2 * k := v (160 * l + 2 * k + 160),
     160 * l + 2 * k + 1 := v (160 * l + 2 * k + 161))"
proof -
  have "(l * 80 + k) * 2 = 160 * l + 2 * k" "((l + 1) * 80 + k) * 2 = 160 * l + 2 * k + 160" by auto
  then show ?thesis by (simp add: scroll_cell_def vput_def Let_def algebra_simps)
qed

lemma scroll_line:
  "fold (scroll_cell (int l)) [0..79] vid =
     (\<lambda>pos. if 160 * int l \<le> pos \<and> pos < 160 * int l + 160 then vid (pos + 160) else vid pos)"
proof -
  define P where "P k v \<longleftrightarrow> v = (\<lambda>pos. if 160 * int l \<le> pos \<and> pos < 160 * int l + 2 * int k
    then vid (pos + 160) else vid pos)" for k v
  have "P 80 (fold (scroll_cell (int l)) [0..int 80 - 1] vid)"
  proof (rule fold_upto_invariant [where P = P])
    show "P 0 vid" by (auto simp: P_def fun_eq_iff)
  next
    fix k v assume k: "k < 80" and v: "P k v"
    show "P (Suc k) (scroll_cell (int l) (int k) v)"
      unfolding P_def scroll_cell_eq
    proof
      fix pos
      consider "pos = 160 * int l + 2 * int k" | "pos = 160 * int l + 2 * int k + 1"
        | "pos < 160 * int l + 2 * int k" | "pos > 160 * int l + 2 * int k + 1" by linarith
      then show "(v(160 * int l + 2 * int k := v (160 * int l + 2 * int k + 160),
          160 * int l + 2 * int k + 1 := v (160 * int l + 2 * int k + 161))) pos =
        (if 160 * int l \<le> pos \<and> pos < 160 * int l + 2 * int (Suc k) then vid (pos + 160) else vid pos)"
        using k v by cases (simp_all add: P_def algebra_simps)
    qed
  qed
  then show ?thesis by (simp add: P_def)
qed

lemma scroll_lines:
  "fold (\<lambda>line. fold (scroll_cell line) [0..79]) [0..23] vid =
     (\<lambda>pos. if 0 \<le> pos \<and> pos < 3840 then vid (pos + 160) else vid pos)"
proof -
  define P where "P k v \<longleftrightarrow> v = (\<lambda>pos. if 0 \<le> pos \<and> pos < 160 * int k
    then vid (pos + 160) else vid pos)" for k v
  have "P 24 (fold (\<lambda>line. fold (scroll_cell line) [0..79]) [0..int 24 - 1] vid)"
  proof (rule fold_upto_invariant [where P = P])
    show "P 0 vid" by (auto simp: P_def fun_eq_iff)
  next
    fix k v assume "k < 24" "P k v"
    then show "P (Suc k) (fold (scroll_cell (int k)) [0..79] v)"
      unfolding scroll_line by (auto simp: P_def fun_eq_iff)
  qed
  then show ?thesis by (simp add: P_def)
qed

lemma clear_cells:
  assumes "\<And>k. g k = b + 2 * k" "even b"
  shows "fold (\<lambda>k. clear_cell (g k)) [0..int n - 1] vid =
     (\<lambda>pos. if b \<le> pos \<and> pos < b + 2 * int n then (if even pos then 0x20 else 0x07) else vid pos)"
proof -
  define P where "P k v \<longleftrightarrow> v = (\<lambda>pos. if b \<le> pos \<and> pos < b + 2 * int k
    then (if even pos then 0x20 else 0x07) else vid pos)" for k and v :: "int \<Rightarrow> u8"
  have "P n (fold (\<lambda>k. clear_cell (g k)) [0..int n - 1] vid)"
  proof (rule fold_upto_invariant [where P = P])
    show "P 0 vid" by (auto simp: P_def fun_eq_iff)
  next
    fix k v assume "k < n" "P k v"
    moreover have "b + 2 * int k \<le> pos \<and> pos < b + 2 * int (Suc k) \<longleftrightarrow>
        b \<le> pos \<and> pos < b + 2 * int k \<and> False \<or> pos = b + 2 * int k \<or> pos = b + 2 * int k + 1" for pos by auto
    ultimately show "P (Suc k) (clear_cell (g (int k)) v)"
      using assms(2) by (auto simp: P_def clear_cell_def vput_def fun_eq_iff assms(1))
  qed
  then show ?thesis by (simp add: P_def)
qed

lemma video_scroll_screen:
  "video (scroll_screen c) =
     (\<lambda>pos. if 0 \<le> pos \<and> pos < 3840 then video c (pos + 160)
            else if 3840 \<le> pos \<and> pos < 4000 then (if even pos then 0x20 else 0x07)
            else video c pos)"
  using clear_cells [of "\<lambda>col. (24 * 80 + col) * 2" 3840 80
      "\<lambda>pos. if 0 \<le> pos \<and> pos < 3840 then video c (pos + 160) else video c pos"]
  by (simp add: scroll_screen_def scroll_lines Let_def) (simp add: fun_eq_iff)

lemma video_kclear_screen:
  "video (kclear_screen c) =
     (\<lambda>pos. if 0 \<le> pos \<and> pos < 4000 then (if even pos then 0x20 else 0x07) else video c pos)"
  using clear_cells [of "\<lambda>k. 2 * k" 0 2000 "video c"]
  by (simp add: kclear_screen_def update_hardware_cursor_def Let_def)

lemma scroll_screen_cursor [simp]:
  "kprint_x (scroll_screen c) = kprint_x c" "kprint_y (scroll_screen c) = kprint_y c"
  "crtc (scroll_screen c) = crtc c"
  by (simp_all add: scroll_screen_def Let_def)

lemma update_hardware_cursor_fields [simp]:
  "kprint_x (update_hardware_cursor c) = kprint_x c" "kprint_y (update_hardware_cursor c) = kprint_y c"
  "video (update_hardware_cursor c) = video c"
  by (simp_all add: update_hardware_cursor_def Let_def)

section \<open>The cursor invariant\<close>

definition cursor_ok :: "console \<Rightarrow> bool" where
  "cursor_ok c \<longleftrightarrow> 0 \<le> kprint_x c \<and> kprint_x c < 80 \<and> 0 \<le> kprint_y c \<and> kprint_y c < 25"

text \<open>The cursor stays on the screen and nothing outside the 4000 bytes of the text buffer changes.\<close>

definition screen_inv :: "(int \<Rightarrow> u8) \<Rightarrow> console \<Rightarrow> bool" where
  "screen_inv vid c \<longleftrightarrow> cursor_ok c \<and> (\<forall>pos. pos < 0 \<or> 4000 \<le> pos \<longrightarrow> video c pos = vid pos)"

lemma screen_inv_self: "cursor_ok c \<Longrightarrow> screen_inv (video c) c"
  by (simp add: screen_inv_def)

lemma kputchar_screen_inv: "screen_inv vid c \<Longrightarrow> screen_inv vid (kputchar ch c)"
  by (auto simp: screen_inv_def cursor_ok_def kputchar_def clear_cell_def vput_def
      video_scroll_screen Let_def)

text \<open>
  What every output routine relies on: one operation that puts a character and keeps a
  property of the state. Putting a whole string then keeps it too.
\<close>

locale char_sink =
  fixes put :: "char \<Rightarrow> 's \<Rightarrow> 's" and I :: "'s \<Rightarrow> bool"
  assumes put_keeps: "I s \<Longrightarrow> I (put ch s)"
begin

lemma fold_keeps: "I s \<Longrightarrow> I (fold put str s)"
  by (induction str arbitrary: s) (auto intro: put_keeps)

lemma fold_option_keeps: "I s \<Longrightarrow> map_option (\<lambda>str. fold put str s) r = Some s' \<Longrightarrow> I s'"
  by (auto intro: fold_keeps)

end

interpretation screen: char_sink kputchar "screen_inv vid" for vid
  by unfold_locales (rule kputchar_screen_inv)

section \<open>The hardware cursor follows\<close>

definition hw_cursor_synced :: "console \<Rightarrow> bool" where
  "hw_cursor_synced c \<longleftrightarrow>
     (\<exists>past. let position = of_int (kprint_y c * 80 + kprint_x c) :: u16 in
        crtc c = past @ [(0x3D4, 0x0E), (0x3D5, ucast (drop_bit 8 position)),
                         (0x3D4, 0x0F), (0x3D5, ucast (position AND 0xFF))])"

lemma update_hardware_cursor_synced: "hw_cursor_synced (update_hardware_cursor c)"
  by (simp add: hw_cursor_synced_def update_hardware_cursor_def Let_def)

lemma kputchar_synced: "hw_cursor_synced (kputchar ch c)"
  unfolding kputchar_def Let_def by (rule update_hardware_cursor_synced)

section \<open>The terminal\<close>

text \<open>
  The specification: 2000 character cells and the index of the cell the next character goes
  to. A line feed goes to the start of the next line, a backspace blanks the cell before,
  anything else fills a cell; running off the end drops the first line.
\<close>

definition term_put :: "char \<Rightarrow> u8 list \<times> nat \<Rightarrow> u8 list \<times> nat" where
  "term_put ch = (\<lambda>(text, i).
     let (text', i') =
       (if ch = CHR 0x0A then (text, (i div 80 + 1) * 80)
        else if ch = CHR 0x08 then (text[i - 1 := 0x20], i - 1)
        else (text[i := of_char ch], i + 1))
     in if i' \<ge> 2000 then (drop 80 text' @ replicate 80 0x20, i' - 80) else (text', i'))"

definition term_of :: "console \<Rightarrow> u8 list \<times> nat" where
  "term_of c = (map (\<lambda>i. video c (2 * int i)) [0..<2000], nat (kprint_y c * 80 + kprint_x c))"

definition cells :: "(int \<Rightarrow> u8) \<Rightarrow> u8 list" where
  "cells vid = map (\<lambda>i. vid (2 * int i)) [0..<2000]"

lemma term_of_cells: "term_of c = (cells (video c), nat (kprint_y c * 80 + kprint_x c))"
  by (simp add: term_of_def cells_def)

lemma length_cells [simp]: "length (cells vid) = 2000"
  by (simp add: cells_def)

lemma nth_cells [simp]: "i < 2000 \<Longrightarrow> cells vid ! i = vid (2 * int i)"
  by (simp add: cells_def)

lemma cells_put: "cells (vput (2 * int j + 1) a (vput (2 * int j) v vid)) = (cells vid)[j := v]"
proof (rule nth_equalityI)
  fix i assume "i < length (cells (vput (2 * int j + 1) a (vput (2 * int j) v vid)))"
  then have "i < 2000" by simp
  moreover have "2 * int i \<noteq> 2 * int j + 1" by presburger
  ultimately show "cells (vput (2 * int j + 1) a (vput (2 * int j) v vid)) ! i = (cells vid)[j := v] ! i"
    by (simp add: vput_def nth_list_update)
qed simp

lemma cells_clear: "cells (clear_cell (2 * int j) vid) = (cells vid)[j := 0x20]"
  unfolding clear_cell_def by (rule cells_put)

lemma cells_scroll: "cells (video (scroll_screen c)) = drop 80 (cells (video c)) @ replicate 80 0x20"
proof (rule nth_equalityI)
  fix i assume "i < length (cells (video (scroll_screen c)))"
  then have "i < 2000" by simp
  then show "cells (video (scroll_screen c)) ! i = (drop 80 (cells (video c)) @ replicate 80 0x20) ! i"
    by (simp add: video_scroll_screen nth_append algebra_simps)
qed simp

lemma cells_kclear_screen: "cells (video (kclear_screen c)) = replicate 2000 0x20"
  by (rule nth_equalityI) (simp_all add: video_kclear_screen)

text \<open>The three kinds of character, each with the cursor as the pair of column and line.\<close>

lemma kputchar_refines:
  assumes "cursor_ok c"
  shows "term_of (kputchar ch c) = term_put ch (term_of c)"
proof -
  obtain x y where x: "kprint_x c = int x" "x < 80" and y: "kprint_y c = int y" "y < 25"
    using assms by (auto simp: cursor_ok_def elim!: nonneg_int_cases)
  have i: "nat (int y * 80 + int x) = 80 * y + x" by simp
  have line: "(80 * y + x) div 80 = y" using x(2) by simp
  consider "ch = CHR 0x0A" | "ch = CHR 0x08" | "ch \<noteq> CHR 0x0A" "ch \<noteq> CHR 0x08" by blast
  then show ?thesis
  proof cases
    case 1
    then show ?thesis using x y
      by (auto simp: kputchar_def term_put_def term_of_cells Let_def i line cells_scroll)
  next
    case 2
    have norm: "160 * int y + (2 * int x - 2) = 160 * int y + 2 * int x - 2"
      "int x * 2 - 2 = 2 * int x - 2" by auto
    have "(int y * 80 + (int x - 1)) * 2 = 2 * int (80 * y + x - 1)" if "x > 0" using that by auto
    moreover have "((int y - 1) * 80 + 79) * 2 = 2 * int (80 * y + x - 1)" if "x = 0" "y > 0"
      using that by auto
    ultimately show ?thesis using x y 2 cells_clear [of "80 * y + x - 1" "video c"]
      by (auto simp: kputchar_def term_put_def term_of_cells Let_def i norm)
  next
    case 3
    have "(int y * 80 + int x) * 2 = 2 * int (80 * y + x)" by auto
    then show ?thesis using x y 3 cells_put [of "80 * y + x" 7 "of_char ch" "video c"]
      by (auto simp: kputchar_def term_put_def term_of_cells Let_def i cells_scroll
          mult.commute [of "int x" 2])
  qed
qed

lemma fold_kputchar_refines:
  "cursor_ok c \<Longrightarrow> term_of (fold kputchar str c) = fold term_put str (term_of c)"
proof (induction str arbitrary: c)
  case Nil
  then show ?case by simp
next
  case (Cons ch str)
  have "cursor_ok (kputchar ch c)"
    using kputchar_screen_inv [OF screen_inv_self [OF Cons.prems]] by (simp add: screen_inv_def)
  with Cons show ?case by (simp add: kputchar_refines)
qed

end
