(* ===== verification/Console_Format.thy ===== *)
theory Console_Format
  imports Console_Screen
begin

text \<open>
  The formatted-output half of the console. \<open>render\<close> is the specification: the string a
  call of \<open>kprintf\<close> prints, computed without a console, with numbers written as the digits
  of the natural number. \<open>kprintf\<close> is shown to put exactly that string, and the format
  check \<open>format_spec\<close> is shown to be sufficient for the call to be free of undefined
  behaviour.
\<close>

section \<open>Digits\<close>

fun nat_digits :: "nat \<Rightarrow> nat \<Rightarrow> nat list" where
  "nat_digits b n = (if n = 0 \<or> b < 2 then [] else n mod b # nat_digits b (n div b))"

declare nat_digits.simps [simp del]

lemma nat_digits_0 [simp]: "nat_digits b 0 = []"
  by (simp add: nat_digits.simps)

lemma nat_digits_step: "0 < n \<Longrightarrow> 2 \<le> b \<Longrightarrow> nat_digits b n = n mod b # nat_digits b (n div b)"
  by (simp add: nat_digits.simps [of b n])

text \<open>The number a little-endian digit list denotes.\<close>

fun digits_val :: "nat \<Rightarrow> nat list \<Rightarrow> nat" where
  "digits_val b [] = 0"
| "digits_val b (d # ds) = d + b * digits_val b ds"

lemma digits_val_nat_digits: "2 \<le> b \<Longrightarrow> digits_val b (nat_digits b n) = n"
proof (induction b n rule: nat_digits.induct)
  case (1 b n)
  then show ?case by (cases "n = 0") (simp_all add: nat_digits_step)
qed

lemma nat_digits_less: "2 \<le> b \<Longrightarrow> d \<in> set (nat_digits b n) \<Longrightarrow> d < b"
proof (induction b n rule: nat_digits.induct)
  case (1 b n)
  then show ?case by (cases "n = 0") (auto simp: nat_digits_step)
qed

text \<open>No leading zero.\<close>

lemma nat_digits_last: "2 \<le> b \<Longrightarrow> 0 < n \<Longrightarrow> last (nat_digits b n) \<noteq> 0"
proof (induction b n rule: nat_digits.induct)
  case (1 b n)
  show ?case
  proof (cases "n div b = 0")
    case True
    with "1.prems" have "n < b" by (simp add: div_eq_0_iff)
    with "1.prems" True show ?thesis by (simp add: nat_digits_step)
  next
    case False
    with 1 have "last (nat_digits b (n div b)) \<noteq> 0" by simp
    moreover have "nat_digits b (n div b) \<noteq> []"
      using False "1.prems" by (simp add: nat_digits_step)
    ultimately show ?thesis using "1.prems" by (simp add: nat_digits_step)
  qed
qed

lemma length_nat_digits: "2 \<le> b \<Longrightarrow> n < b ^ k \<Longrightarrow> length (nat_digits b n) \<le> k"
proof (induction k arbitrary: n)
  case 0
  then show ?case by simp
next
  case (Suc k)
  show ?case
  proof (cases "n = 0")
    case False
    have "n div b < b ^ k" using Suc.prems
      by (simp add: less_mult_imp_div_less mult.commute)
    with Suc False show ?thesis by (simp add: nat_digits_step)
  qed simp
qed

lemma length_nat_digits32: "2 \<le> b \<Longrightarrow> length (nat_digits b (unat (n :: u32))) \<le> 32"
proof (rule length_nat_digits)
  assume "2 \<le> b"
  then have "(2::nat) ^ 32 \<le> b ^ 32" by (rule power_mono) simp
  then show "unat n < b ^ 32" using unat32_less[of n] by simp
qed

definition digit_char :: "bool \<Rightarrow> nat \<Rightarrow> char" where
  "digit_char uppercase d = digit_set uppercase ! d"

text \<open>What the code's digit loop leaves in the buffer, when the buffer is large enough.\<close>

declare digit_loop.simps [simp del]

lemma digit_loop_eq:
  "2 \<le> unat base \<Longrightarrow> length (nat_digits (unat base) (unat num)) \<le> room \<Longrightarrow>
   digit_loop room num base up buffer =
     Some (buffer @ map (digit_char up) (nat_digits (unat base) (unat num)))"
proof (induction room num base up buffer rule: digit_loop.induct)
  case (1 room num base up buffer)
  show ?case
  proof (cases "num = 0")
    case True
    then show ?thesis by (simp add: digit_loop.simps [of room 0])
  next
    case False
    then have n: "0 < unat num" by (simp add: unat_gt_0)
    with "1.prems" obtain room' where r: "room = Suc room'"
      by (cases room) (simp_all add: nat_digits_step)
    have "digit_loop room' (num div base) base up (buffer @ [digit_set up ! unat (num mod base)]) =
        Some ((buffer @ [digit_set up ! unat (num mod base)]) @
              map (digit_char up) (nat_digits (unat base) (unat (num div base))))"
      using "1.prems" n r False
      by (intro "1.IH") (simp_all add: nat_digits_step unat_div word_gt_0)
    then show ?thesis using False n r "1.prems"
      by (simp add: digit_loop.simps [of "Suc room'" num] word_gt_0 nat_digits_step unat_div unat_mod
          flip: digit_char_def)
  qed
qed

section \<open>Rendering\<close>

definition render_nat :: "nat \<Rightarrow> bool \<Rightarrow> nat \<Rightarrow> string" where
  "render_nat b up n = (if n = 0 then ''0'' else rev (map (digit_char up) (nat_digits b n)))"

definition render_int :: "u32 \<Rightarrow> string" where
  "render_int n = (if sint n < 0 then CHR ''-'' # render_nat 10 False (unat (- n))
                   else render_nat 10 False (unat n))"

text \<open>Zeros in front up to the given width; \<open>None\<close> when the width exceeds the buffer.\<close>

definition render_pad :: "int \<Rightarrow> string \<Rightarrow> string option" where
  "render_pad padding str =
     (if int (length str) < padding
      then (if padding \<le> 32 then Some (replicate (nat padding - length str) (CHR ''0'') @ str) else None)
      else Some str)"

definition render_conv :: "char \<Rightarrow> karg list \<Rightarrow> (karg list \<times> string) option" where
  "render_conv d args =
     (if d = CHR ''d'' then
        (case args of KInt n # as \<Rightarrow> Some (as, render_int n) | _ \<Rightarrow> None)
      else if d = CHR ''u'' then
        (case args of KInt n # as \<Rightarrow> Some (as, render_nat 10 False (unat n)) | _ \<Rightarrow> None)
      else if d = CHR ''x'' then
        (case args of KInt n # as \<Rightarrow> Some (as, render_nat 16 False (unat n)) | _ \<Rightarrow> None)
      else if d = CHR ''X'' then
        (case args of KInt n # as \<Rightarrow> Some (as, render_nat 16 True (unat n)) | _ \<Rightarrow> None)
      else if d = CHR ''p'' then
        (case args of KInt n # as \<Rightarrow> Some (as, ''0x'' @ render_nat 16 False (unat n)) | _ \<Rightarrow> None)
      else if d = CHR ''c'' then
        (case args of KInt n # as \<Rightarrow> Some (as, [char_of (unat (ucast n :: u8))]) | _ \<Rightarrow> None)
      else if d = CHR ''s'' then
        (case args of KStr (Some str) # as \<Rightarrow> Some (as, str)
         | KStr None # as \<Rightarrow> Some (as, ''(null)'') | _ \<Rightarrow> None)
      else if d = CHR ''%'' then Some (args, ''%'')
      else Some (args, [CHR ''%'', d]))"

definition render_padded :: "char \<Rightarrow> int \<Rightarrow> karg list \<Rightarrow> (karg list \<times> string) option" where
  "render_padded e padding args =
     (if e = CHR ''x'' then
        (case args of KInt n # as \<Rightarrow> map_option (Pair as) (render_pad padding (render_nat 16 False (unat n))) | _ \<Rightarrow> None)
      else if e = CHR ''X'' then
        (case args of KInt n # as \<Rightarrow> map_option (Pair as) (render_pad padding (render_nat 16 True (unat n))) | _ \<Rightarrow> None)
      else if e = CHR ''d'' then
        (case args of KInt n # as \<Rightarrow>
           (if sint n < 0 then map_option (\<lambda>str. (as, CHR ''-'' # str)) (render_pad (padding - 1) (render_nat 10 False (unat (- n))))
            else map_option (Pair as) (render_pad padding (render_nat 10 False (unat n)))) | _ \<Rightarrow> None)
      else Some (args, []))"

function render :: "string \<Rightarrow> karg list \<Rightarrow> string option" where
  "render [] args = Some []"
| "render (f # format) args =
     (if f \<noteq> CHR ''%'' then map_option (Cons f) (render format args)
      else (case format of
          [] \<Rightarrow> None
        | d # format' \<Rightarrow>
            (if d = CHR ''0'' then
               (case dropWhile is_digit format' of
                  [] \<Rightarrow> None
                | e # format'' \<Rightarrow>
                    (if parse_padding (takeWhile is_digit format') > 2147483647 then None
                     else (case render_padded e (parse_padding (takeWhile is_digit format')) args of
                             None \<Rightarrow> None
                           | Some (as, str) \<Rightarrow> map_option ((@) str) (render format'' as))))
             else (case render_conv d args of
                     None \<Rightarrow> None
                   | Some (as, str) \<Rightarrow> map_option ((@) str) (render format' as)))))"
  by pat_completeness auto
termination
proof (relation "measure (\<lambda>(format, args). length format)", goal_cases)
  case (3 f format args d format' e format'' pr as str)
  then have "length (dropWhile is_digit format') = Suc (length format'')" by simp
  then show ?case using 3 length_dropWhile_le[of is_digit format'] by simp
qed auto

section \<open>The code prints what the specification renders\<close>

lemma put_reversed_digits:
  "0 < n \<Longrightarrow> put_reversed (map (digit_char up) (nat_digits b n)) c = fold kputchar (render_nat b up n) c"
  by (simp add: put_reversed_def render_nat_def)

lemma kprint_unsigned_eq:
  "2 \<le> unat base \<Longrightarrow> kprint_unsigned num base up c = Some (fold kputchar (render_nat (unat base) up (unat num)) c)"
  by (auto simp: kprint_unsigned_def digit_loop_eq length_nat_digits32 put_reversed_digits unat_gt_0
      render_nat_def unat_eq_zero)

lemma kprint_number_eq: "kprint_number num 10 False c = Some (fold kputchar (render_int num) c)"
  by (simp add: kprint_number_def kprint_unsigned_eq render_int_def)

lemma length_render_nat: "2 \<le> b \<Longrightarrow> length (render_nat b up n) = max 1 (length (nat_digits b n))"
  by (cases "n = 0") (simp_all add: render_nat_def nat_digits_step)

lemma kprint_unsigned_padded_eq:
  assumes "2 \<le> unat base"
  shows "kprint_unsigned_padded num base up padding c =
     map_option (\<lambda>str. fold kputchar str c) (render_pad padding (render_nat (unat base) up (unat num)))"
proof -
  have buffer: "(if num = 0 then Some [CHR ''0''] else digit_loop 32 num base up []) =
      Some (rev (render_nat (unat base) up (unat num)))"
    using assms by (simp add: digit_loop_eq length_nat_digits32 render_nat_def unat_eq_zero)
  show ?thesis unfolding kprint_unsigned_padded_def buffer
    by (simp add: pad_buffer_def render_pad_def put_reversed_def)
qed

lemma kprint_number_padded_eq:
  "kprint_number_padded num 10 padding c =
     (if sint num < 0
      then map_option (\<lambda>str. fold kputchar (CHR ''-'' # str) c) (render_pad (padding - 1) (render_nat 10 False (unat (- num))))
      else map_option (\<lambda>str. fold kputchar str c) (render_pad padding (render_nat 10 False (unat num))))"
  by (simp add: kprint_number_padded_def kprint_unsigned_padded_eq)

lemma kprintf_conv_eq:
  "kprintf_conv d args c = map_option (\<lambda>(as, str). (as, fold kputchar str c)) (render_conv d args)"
  unfolding kprintf_conv_def render_conv_def
  by (auto simp: kprint_number_eq kprint_unsigned_eq split: list.split karg.split option.split)

lemma kprintf_padded_eq:
  "kprintf_padded e padding args c = map_option (\<lambda>(as, str). (as, fold kputchar str c)) (render_padded e padding args)"
  unfolding kprintf_padded_def render_padded_def
  by (auto simp: kprint_number_padded_eq kprint_unsigned_padded_eq option.map_comp o_def
      split: list.split karg.split)

lemma kprintf_render: "kprintf format args c = map_option (\<lambda>str. fold kputchar str c) (render format args)"
proof (induction format args arbitrary: c rule: render.induct)
  case (1 args)
  then show ?case by simp
next
  case (2 f format args)
  show ?case
  proof (cases "f = CHR ''%'' \<and> format \<noteq> []")
    case False
    then show ?thesis using "2.IH"(1) by (auto simp: option.map_comp o_def)
  next
    case True
    then obtain d format' where f: "f = CHR ''%''" "format = d # format'" by (cases format) auto
    show ?thesis
    proof (cases "d = CHR ''0''")
      case zero: True
      show ?thesis
      proof (cases "dropWhile is_digit format'")
        case Nil
        show ?thesis using f zero by (simp add: Nil del: dropWhile_eq_Nil_conv)
      next
        case (Cons e format'')
        show ?thesis using "2.IH"(2) [OF _ f(2) zero Cons] f zero Cons
          by (auto simp: kprintf_padded_eq Let_def option.map_comp o_def split: option.split)
      qed
    next
      case False
      then show ?thesis using "2.IH"(3) f
        by (auto simp: kprintf_conv_eq option.map_comp o_def split: option.splits)
    qed
  qed
qed

section \<open>A format check that rules out undefined behaviour\<close>

datatype akind = AInt | AStr

definition conv_kinds :: "char \<Rightarrow> akind list" where
  "conv_kinds d =
     (if d \<in> {CHR ''d'', CHR ''u'', CHR ''x'', CHR ''X'', CHR ''p'', CHR ''c''} then [AInt]
      else if d = CHR ''s'' then [AStr] else [])"

definition padded_kinds :: "char \<Rightarrow> akind list" where
  "padded_kinds e = (if e \<in> {CHR ''d'', CHR ''x'', CHR ''X''} then [AInt] else [])"

text \<open>The kinds of argument a format consumes, \<open>None\<close> when a specification is cut short or asks for more than 32 columns.\<close>

function format_kinds :: "string \<Rightarrow> akind list option" where
  "format_kinds [] = Some []"
| "format_kinds (f # format) =
     (if f \<noteq> CHR ''%'' then format_kinds format
      else (case format of
          [] \<Rightarrow> None
        | d # format' \<Rightarrow>
            (if d = CHR ''0'' then
               (case dropWhile is_digit format' of
                  [] \<Rightarrow> None
                | e # format'' \<Rightarrow>
                    (if parse_padding (takeWhile is_digit format') > 32 then None
                     else map_option ((@) (padded_kinds e)) (format_kinds format'')))
             else map_option ((@) (conv_kinds d)) (format_kinds format'))))"
  by pat_completeness auto
termination
proof (relation "measure length", goal_cases)
  case (3 f format d format' e format'')
  then have "length (dropWhile is_digit format') = Suc (length format'')" by simp
  then show ?case using 3 length_dropWhile_le[of is_digit format'] by simp
qed auto

fun args_match :: "akind list \<Rightarrow> karg list \<Rightarrow> bool" where
  "args_match [] args = True"
| "args_match (AInt # ks) (KInt n # as) = args_match ks as"
| "args_match (AStr # ks) (KStr p # as) = args_match ks as"
| "args_match (k # ks) args = False"

definition call_ok :: "string \<Rightarrow> karg list \<Rightarrow> bool" where
  "call_ok format args = (case format_kinds format of None \<Rightarrow> False | Some ks \<Rightarrow> args_match ks args)"

lemma args_match_AInt: "args_match (AInt # ks) args \<Longrightarrow> \<exists>n as. args = KInt n # as \<and> args_match ks as"
  by (cases "(AInt # ks, args)" rule: args_match.cases) auto

lemma args_match_AStr: "args_match (AStr # ks) args \<Longrightarrow> \<exists>p as. args = KStr p # as \<and> args_match ks as"
  by (cases "(AStr # ks, args)" rule: args_match.cases) auto

lemma render_pad_small: "padding \<le> 32 \<Longrightarrow> \<exists>str'. render_pad padding str = Some str'"
  by (simp add: render_pad_def)

lemma render_conv_matching:
  assumes "args_match (conv_kinds d @ ks) args"
  shows "\<exists>as str. render_conv d args = Some (as, str) \<and> args_match ks as"
proof -
  consider "d \<in> {CHR ''d'', CHR ''u'', CHR ''x'', CHR ''X'', CHR ''p'', CHR ''c''}"
    | "d = CHR ''s''" | "conv_kinds d = []" "render_conv d args \<noteq> None \<Longrightarrow> fst (the (render_conv d args)) = args"
      "render_conv d args \<noteq> None"
  proof (cases "d \<in> {CHR ''d'', CHR ''u'', CHR ''x'', CHR ''X'', CHR ''p'', CHR ''c'', CHR ''s''}")
    case False
    then have "conv_kinds d = []" "\<exists>str. render_conv d args = Some (args, str)"
      by (auto simp: conv_kinds_def render_conv_def)
    then show ?thesis using that(3) by auto
  qed blast
  then show ?thesis
  proof cases
    case 1
    then have "conv_kinds d = [AInt]" by (simp add: conv_kinds_def)
    with assms obtain n as where "args = KInt n # as" "args_match ks as" by (auto dest!: args_match_AInt)
    with 1 show ?thesis by (auto simp: render_conv_def)
  next
    case 2
    with assms obtain p as where "args = KStr p # as" "args_match ks as"
      by (auto simp: conv_kinds_def dest!: args_match_AStr)
    with 2 show ?thesis by (cases p) (simp_all add: render_conv_def)
  next
    case 3
    with assms show ?thesis by (cases "render_conv d args") auto
  qed
qed

lemma render_padded_matching:
  "args_match (padded_kinds e @ ks) args \<Longrightarrow> padding \<le> 32 \<Longrightarrow>
   \<exists>as str. render_padded e padding args = Some (as, str) \<and> args_match ks as"
  using render_pad_small [of padding] render_pad_small [of "padding - 1"]
  by (fastforce simp: padded_kinds_def render_padded_def split: if_splits dest!: args_match_AInt)

lemma render_matching:
  "format_kinds format = Some ks \<Longrightarrow> args_match ks args \<Longrightarrow> \<exists>str. render format args = Some str"
proof (induction format args arbitrary: ks rule: render.induct)
  case (1 args)
  then show ?case by simp
next
  case (2 f format args)
  show ?case
  proof (cases "f = CHR ''%''")
    case False
    then show ?thesis using 2 by auto
  next
    case f: True
    then obtain d format' where d: "format = d # format'" using "2.prems" by (cases format) auto
    show ?thesis
    proof (cases "d = CHR ''0''")
      case zero: True
      then obtain e format'' where e: "dropWhile is_digit format' = e # format''"
        using "2.prems" f d by (cases "dropWhile is_digit format'") auto
      with zero f d "2.prems" obtain ks' where ks': "format_kinds format'' = Some ks'"
          "ks = padded_kinds e @ ks'" "parse_padding (takeWhile is_digit format') \<le> 32"
        by (auto split: if_splits)
      with "2.prems"(2) obtain as str where
        "render_padded e (parse_padding (takeWhile is_digit format')) args = Some (as, str)" "args_match ks' as"
        using render_padded_matching by blast
      with "2.IH"(2) [of d format' e format''] f d e zero ks' show ?thesis by fastforce
    next
      case False
      with f d "2.prems" obtain ks' where ks': "format_kinds format' = Some ks'" "ks = conv_kinds d @ ks'"
        by auto
      with "2.prems"(2) obtain as str where "render_conv d args = Some (as, str)" "args_match ks' as"
        using render_conv_matching by blast
      with "2.IH"(3) [of d format'] f d False ks' show ?thesis by fastforce
    qed
  qed
qed

lemma call_ok_render: "call_ok format args \<Longrightarrow> \<exists>str. render format args = Some str"
  by (auto simp: call_ok_def split: option.splits intro: render_matching)

section \<open>Console calls\<close>

text \<open>
  What the other components ask of the console, in the order they ask it. \<open>console_run\<close>
  performs a recorded sequence of calls; \<open>None\<close> when one of them is undefined behaviour.
\<close>

datatype kcall = KPrintf string "karg list" | KPutchar char | KClear

fun console_call :: "kcall \<Rightarrow> console \<Rightarrow> console option" where
  "console_call (KPrintf format args) c = kprintf format args c"
| "console_call (KPutchar ch) c = Some (kputchar ch c)"
| "console_call KClear c = Some (kclear_screen c)"

fun console_run :: "kcall list \<Rightarrow> console \<Rightarrow> console option" where
  "console_run [] c = Some c"
| "console_run (k # ks) c = (case console_call k c of None \<Rightarrow> None | Some c' \<Rightarrow> console_run ks c')"

fun kcall_ok :: "kcall \<Rightarrow> bool" where
  "kcall_ok (KPrintf format args) = call_ok format args"
| "kcall_ok _ = True"

lemma kclear_screen_cursor: "kprint_x (kclear_screen c) = 0" "kprint_y (kclear_screen c) = 0"
  by (simp_all add: kclear_screen_def)

lemma kclear_screen_inv: "\<forall>pos. pos < 0 \<or> 4000 \<le> pos \<longrightarrow> video c pos = vid pos \<Longrightarrow> screen_inv vid (kclear_screen c)"
  by (auto simp: screen_inv_def cursor_ok_def video_kclear_screen kclear_screen_cursor)

lemma kprintf_screen_inv: "screen_inv vid c \<Longrightarrow> kprintf format args c = Some c' \<Longrightarrow> screen_inv vid c'"
  unfolding kprintf_render by (rule screen.fold_option_keeps)

lemma console_call_keeps: "screen_inv vid c \<Longrightarrow> console_call k c = Some c' \<Longrightarrow> screen_inv vid c'"
proof (cases k)
  case KClear
  moreover assume "screen_inv vid c" "console_call k c = Some c'"
  ultimately show ?thesis using kclear_screen_inv by (auto simp: screen_inv_def [of vid c])
qed (auto intro: kprintf_screen_inv kputchar_screen_inv)

lemma console_run_keeps: "screen_inv vid c \<Longrightarrow> console_run ks c = Some c' \<Longrightarrow> screen_inv vid c'"
  by (induction ks arbitrary: c) (auto split: option.splits intro: console_call_keeps)

lemma console_run_total: "list_all kcall_ok ks \<Longrightarrow> \<exists>c'. console_run ks c = Some c'"
proof (induction ks arbitrary: c)
  case Nil
  then show ?case by simp
next
  case (Cons k ks)
  have "\<exists>c'. console_call k c = Some c'"
    using Cons.prems call_ok_render by (cases k) (fastforce simp: kprintf_render)+
  with Cons show ?case by fastforce
qed

end
