(* ===== verification/Machine.thy ===== *)
theory Machine
  imports Memory Console_Format
begin

text \<open>
  The machine the C code runs on: physical memory, the control registers, and the two
  ordered records of what the code did to the outside: the calls of the console routines
  (\<open>kout\<close>, performed by \<open>console_run\<close>) and the port accesses and privileged instructions
  (\<open>io\<close>). The static variables of a component extend this record in the theory of the
  component, so an operation of one component keeps the fields of the others by definition.

  The hardware is not part of the program. It is a parameter, a \<open>device\<close>: what a port, the
  time stamp counter or the A20 line shows depends on everything done to the hardware before.
  So do the results of the assembly routines of \<^verbatim>\<open>vesa_bios.asm\<close>, which call the video
  BIOS in real mode. \<open>Spin n\<close> is a busy loop of \<open>n\<close> iterations on a volatile counter, and
  \<open>HaltLoop\<close> a loop around \<^verbatim>\<open>hlt\<close> that is never left.
\<close>

datatype hw_event =
    Out u16 u8
  | In u16 u8
  | Invlpg u32
  | Lidt u32 u16
  | SetCr0 u32
  | SetCr3 u32
  | SetCr4 u32
  | Rdtsc
  | Spin u32
  | Sti
  | HaltLoop
  | VesaSetMode
  | VesaSetText

record machine =
  mem :: memory
  kout :: "kcall list"
  io :: "hw_event list"
  cr0 :: u32
  cr3 :: u32
  cr4 :: u32

record device =
  port_value :: "hw_event list \<Rightarrow> u16 \<Rightarrow> u8"
  a20_line :: "hw_event list \<Rightarrow> bool"
  tsc :: "hw_event list \<Rightarrow> u64"
  fault_address :: "hw_event list \<Rightarrow> u32"
  vesa_set_mode :: "hw_event list \<Rightarrow> u32"
  vesa_set_text :: "hw_event list \<Rightarrow> u32"
  lfb_address :: "hw_event list \<Rightarrow> u32"
  mode_width :: "hw_event list \<Rightarrow> u32"
  mode_height :: "hw_event list \<Rightarrow> u32"
  mode_bpp :: "hw_event list \<Rightarrow> u32"

definition emit :: "kcall \<Rightarrow> 'a machine_scheme \<Rightarrow> 'a machine_scheme" where
  "emit k s = s\<lparr>kout := kout s @ [k]\<rparr>"

abbreviation printk :: "string \<Rightarrow> karg list \<Rightarrow> 'a machine_scheme \<Rightarrow> 'a machine_scheme" where
  "printk format args \<equiv> emit (KPrintf format args)"

definition hw :: "hw_event \<Rightarrow> 'a machine_scheme \<Rightarrow> 'a machine_scheme" where
  "hw e s = s\<lparr>io := io s @ [e]\<rparr>"

definition outb :: "u16 \<Rightarrow> u8 \<Rightarrow> 'a machine_scheme \<Rightarrow> 'a machine_scheme" where
  "outb port val s = hw (Out port val) s"

definition inb :: "device \<Rightarrow> u16 \<Rightarrow> 'a machine_scheme \<Rightarrow> u8 \<times> 'a machine_scheme" where
  "inb dev port s = (let v = port_value dev (io s) port in (v, hw (In port v) s))"

definition rdtsc :: "device \<Rightarrow> 'a machine_scheme \<Rightarrow> u64 \<times> 'a machine_scheme" where
  "rdtsc dev s = (tsc dev (io s), hw Rdtsc s)"

lemma port_simps [simp]:
  "outb port val s = hw (Out port val) s"
  "inb dev port s = (port_value dev (io s) port, hw (In port (port_value dev (io s) port)) s)"
  by (simp_all add: outb_def inb_def Let_def)

lemma emit_fields [simp]:
  "mem (emit k s) = mem s" "io (emit k s) = io s" "cr0 (emit k s) = cr0 s"
  "cr3 (emit k s) = cr3 s" "cr4 (emit k s) = cr4 s" "kout (emit k s) = kout s @ [k]"
  "machine.more (emit k s) = machine.more s"
  by (simp_all add: emit_def)

lemma hw_fields [simp]:
  "mem (hw e s) = mem s" "kout (hw e s) = kout s" "cr0 (hw e s) = cr0 s"
  "cr3 (hw e s) = cr3 s" "cr4 (hw e s) = cr4 s" "io (hw e s) = io s @ [e]"
  "machine.more (hw e s) = machine.more s"
  by (simp_all add: hw_def)

section \<open>What a component says\<close>

text \<open>An operation that only adds calls the console can perform.\<close>

definition says :: "'a machine_scheme \<Rightarrow> 'a machine_scheme \<Rightarrow> bool" where
  "says s s' \<longleftrightarrow> (\<exists>ks. kout s' = kout s @ ks \<and> list_all kcall_ok ks)"

lemma says_same: "kout s' = kout s \<Longrightarrow> says s s'"
  by (auto simp: says_def)

lemma says_refl [simp]: "says s s"
  by (rule says_same) simp

lemma says_trans: "says s s' \<Longrightarrow> says s' s'' \<Longrightarrow> says s s''"
  by (force simp: says_def)

lemma says_emit: "says s s' \<Longrightarrow> kcall_ok k \<Longrightarrow> says s (emit k s')"
  by (force simp: says_def)

lemma says_keep: "says s s' \<Longrightarrow> kout s'' = kout s' \<Longrightarrow> says s s''"
  by (simp add: says_def)

lemma says_for_lt: "(\<And>i s. says s (f i s)) \<Longrightarrow> says s (for_lt n f s)"
  by (rule for_lt_preserves) (auto intro: says_trans)

lemma says_for_guard: "(\<And>i s. says s (f i s)) \<Longrightarrow> says s (for_guard k i c f s)"
  by (rule for_guard_preserves) (auto intro: says_trans)

lemmas call_simps = call_ok_def conv_kinds_def padded_kinds_def

text \<open>Such an operation leaves a console that has kept its invariant able to go on.\<close>

lemma says_console:
  assumes "says s s'" "console_run (kout s) c = Some c1" "screen_inv vid c"
  shows "\<exists>c2. console_run (kout s') c = Some c2 \<and> screen_inv vid c2"
proof -
  obtain ks where ks: "kout s' = kout s @ ks" "list_all kcall_ok ks" using assms(1) by (auto simp: says_def)
  have app: "console_run (xs @ ys) c = Option.bind (console_run xs c) (console_run ys)" for xs ys and c
    by (induction xs arbitrary: c) (auto split: option.split)
  obtain c2 where c2: "console_run ks c1 = Some c2" using console_run_total [OF ks(2)] by blast
  then have "console_run (kout s') c = Some c2" using assms(2) by (simp add: ks(1) app)
  then show ?thesis using console_run_keeps [OF assms(3)] by blast
qed

end
