(* ===== verification/PMM.thy ===== *)
theory PMM
  imports Machine
begin

text \<open>
  The physical memory manager of \<^verbatim>\<open>src/src/memory/pmm.c\<close>: a bitmap of 4096 pages of 4 KB
  from \<^verbatim>\<open>0x1020000\<close> on, kept in the first of these pages, a count of free pages and a
  next-fit search position.

  The bitmap is read and written through memory at the address in \<open>pmm_bitmap\<close>, as the code
  does, so whatever else writes those bytes changes what the manager believes.
\<close>

section \<open>State\<close>

abbreviation (input) PMM_PAGE_SIZE :: u32 where "PMM_PAGE_SIZE \<equiv> 4096"
abbreviation (input) PMM_PAGES_PER_BITMAP_ENTRY :: u32 where "PMM_PAGES_PER_BITMAP_ENTRY \<equiv> 32"
abbreviation (input) PMM_KERNEL_START :: u32 where "PMM_KERNEL_START \<equiv> 0x8000"
abbreviation (input) PMM_KERNEL_END :: u32 where "PMM_KERNEL_END \<equiv> 0x20000"
abbreviation (input) PMM_HEAP_START :: u32 where "PMM_HEAP_START \<equiv> 0x20000"
abbreviation (input) PMM_HEAP_SIZE :: u32 where "PMM_HEAP_SIZE \<equiv> 0x1000000"
abbreviation (input) PMM_MANAGED_START :: u32 where "PMM_MANAGED_START \<equiv> 0x1020000"
abbreviation (input) PMM_MANAGED_SIZE :: u32 where "PMM_MANAGED_SIZE \<equiv> 0x1000000"

abbreviation (input) PMM_SUCCESS :: int where "PMM_SUCCESS \<equiv> 0"
abbreviation (input) PMM_ERROR_NO_MEMORY :: int where "PMM_ERROR_NO_MEMORY \<equiv> -1"
abbreviation (input) PMM_ERROR_INVALID :: int where "PMM_ERROR_INVALID \<equiv> -2"
abbreviation (input) PMM_ERROR_ALIGNED :: int where "PMM_ERROR_ALIGNED \<equiv> -3"

abbreviation (input) PMM_REGION_RESERVED :: u32 where "PMM_REGION_RESERVED \<equiv> 0"
abbreviation (input) PMM_REGION_AVAILABLE :: u32 where "PMM_REGION_AVAILABLE \<equiv> 1"
abbreviation (input) PMM_REGION_KERNEL :: u32 where "PMM_REGION_KERNEL \<equiv> 2"

abbreviation (input) NULL :: u32 where "NULL \<equiv> 0"

record pmm_stats_t =
  total_pages :: u32
  free_pages :: u32
  used_pages :: u32
  reserved_pages :: u32
  bitmap_size :: u32
  last_allocated_page :: u32

record pmm_region_t =
  start_address :: u32
  region_size :: u32
  region_type :: u32

text \<open>The static variables; \<open>pmm_regions\<close> is the array of 16 regions.\<close>

record pmm = machine +
  pmm_bitmap :: u32
  pmm_bitmap_size :: u32
  pmm_total_pages :: u32
  pmm_free_page_count :: u32
  pmm_last_allocated :: u32
  pmm_initialized :: bool
  pmm_regions :: "pmm_region_t list"
  pmm_region_count :: u32

lemma pmm_emit_fields [simp]:
  "pmm_bitmap (emit k s) = pmm_bitmap s" "pmm_bitmap_size (emit k s) = pmm_bitmap_size s"
  "pmm_total_pages (emit k s) = pmm_total_pages s"
  "pmm_free_page_count (emit k s) = pmm_free_page_count s"
  "pmm_last_allocated (emit k s) = pmm_last_allocated s"
  "pmm_initialized (emit k s) = pmm_initialized s"
  "pmm_regions (emit k s) = pmm_regions s" "pmm_region_count (emit k s) = pmm_region_count s"
  "pmm.more (emit k s) = pmm.more s"
  by (simp_all add: emit_def)

section \<open>Pages and bits\<close>

definition pmm_addr_to_page :: "u32 \<Rightarrow> u32" where
  "pmm_addr_to_page addr = addr div PMM_PAGE_SIZE"

definition pmm_page_to_addr :: "u32 \<Rightarrow> u32" where
  "pmm_page_to_addr page = page * PMM_PAGE_SIZE"

definition pmm_page_to_bitmap :: "u32 \<Rightarrow> u32 \<times> u32" where
  "pmm_page_to_bitmap page =
     (page div PMM_PAGES_PER_BITMAP_ENTRY, page mod PMM_PAGES_PER_BITMAP_ENTRY)"

text \<open>\<^verbatim>\<open>pmm_bitmap[entry]\<close>\<close>

definition bitmap_entry :: "('a pmm_scheme) \<Rightarrow> u32 \<Rightarrow> u32" where
  "bitmap_entry s entry = load32 (mem s) (pmm_bitmap s + 4 * entry)"

definition bitmap_store :: "u32 \<Rightarrow> u32 \<Rightarrow> ('a pmm_scheme) \<Rightarrow> ('a pmm_scheme)" where
  "bitmap_store entry v s = s\<lparr>mem := store32 (pmm_bitmap s + 4 * entry) v (mem s)\<rparr>"

definition pmm_set_bit :: "u32 \<Rightarrow> 'a pmm_scheme \<Rightarrow> 'a pmm_scheme" where
  "pmm_set_bit page s =
     (let (entry, bit) = pmm_page_to_bitmap page
      in if entry < pmm_bitmap_size s
         then bitmap_store entry (bitmap_entry s entry OR push_bit (unat bit) 1) s else s)"

definition pmm_clear_bit :: "u32 \<Rightarrow> 'a pmm_scheme \<Rightarrow> 'a pmm_scheme" where
  "pmm_clear_bit page s =
     (let (entry, bit) = pmm_page_to_bitmap page
      in if entry < pmm_bitmap_size s
         then bitmap_store entry (bitmap_entry s entry AND NOT (push_bit (unat bit) 1)) s else s)"

definition pmm_test_bit :: "u32 \<Rightarrow> 'a pmm_scheme \<Rightarrow> bool" where
  "pmm_test_bit page s =
     (let (entry, bit) = pmm_page_to_bitmap page
      in if entry < pmm_bitmap_size s
         then bitmap_entry s entry AND push_bit (unat bit) 1 \<noteq> 0 else True)"

section \<open>Initialisation\<close>

definition pmm_add_region :: "u32 \<Rightarrow> u32 \<Rightarrow> u32 \<Rightarrow> 'a pmm_scheme \<Rightarrow> int \<times> 'a pmm_scheme" where
  "pmm_add_region start sz type s =
     (if pmm_region_count s \<ge> 16 then (PMM_ERROR_NO_MEMORY, s)
      else (PMM_SUCCESS,
        s\<lparr>pmm_regions := (pmm_regions s)[unat (pmm_region_count s) :=
             \<lparr>start_address = start, region_size = sz, region_type = type\<rparr>],
          pmm_region_count := pmm_region_count s + 1\<rparr>))"

text \<open>The body of the loop that marks the reserved regions in the bitmap.\<close>

definition pmm_mark_region :: "pmm_region_t \<Rightarrow> 'a pmm_scheme \<Rightarrow> 'a pmm_scheme" where
  "pmm_mark_region r s =
     (if region_type r \<noteq> PMM_REGION_AVAILABLE then
        (let start_page = pmm_addr_to_page (start_address r);
             page_count = (region_size r + PMM_PAGE_SIZE - 1) div PMM_PAGE_SIZE
         in if start_address r \<ge> PMM_MANAGED_START then
              (let start_page = start_page - pmm_addr_to_page PMM_MANAGED_START
               in for_guard (unat page_count) 0 (\<lambda>j. start_page + j < pmm_total_pages s)
                    (\<lambda>j. pmm_set_bit (start_page + j)) s)
            else s)
      else s)"

definition pmm_count_free :: "'a pmm_scheme \<Rightarrow> u32" where
  "pmm_count_free s = for_lt (pmm_total_pages s) (\<lambda>i n. if \<not> pmm_test_bit i s then n + 1 else n) 0"

text \<open>
  \<open>pmm_init\<close> in its stages: the layout and the cleared bitmap, the table of regions, the
  reserved regions marked in the bitmap, the report.
\<close>

definition pmm_init_bitmap :: "'a pmm_scheme \<Rightarrow> 'a pmm_scheme" where
  "pmm_init_bitmap s =
     (let s = s\<lparr>pmm_total_pages := PMM_MANAGED_SIZE div PMM_PAGE_SIZE\<rparr>;
          s = s\<lparr>pmm_bitmap_size :=
                (pmm_total_pages s + PMM_PAGES_PER_BITMAP_ENTRY - 1) div PMM_PAGES_PER_BITMAP_ENTRY\<rparr>;
          s = s\<lparr>pmm_bitmap := PMM_MANAGED_START\<rparr>
      in for_lt (pmm_bitmap_size s) (\<lambda>i. bitmap_store i 0) s)"

definition pmm_init_regions :: "'a pmm_scheme \<Rightarrow> 'a pmm_scheme" where
  "pmm_init_regions s =
     (let s = s\<lparr>pmm_region_count := 0\<rparr>;
          s = snd (pmm_add_region PMM_KERNEL_START (PMM_KERNEL_END - PMM_KERNEL_START) PMM_REGION_KERNEL s);
          s = snd (pmm_add_region PMM_HEAP_START PMM_HEAP_SIZE PMM_REGION_RESERVED s);
          bitmap_bytes = pmm_bitmap_size s * 4;
          s = snd (pmm_add_region PMM_MANAGED_START bitmap_bytes PMM_REGION_RESERVED s);
          available_start = PMM_MANAGED_START + ((bitmap_bytes + PMM_PAGE_SIZE - 1) AND NOT (PMM_PAGE_SIZE - 1));
          available_size = PMM_MANAGED_SIZE - (available_start - PMM_MANAGED_START)
      in snd (pmm_add_region available_start available_size PMM_REGION_AVAILABLE s))"

definition pmm_init_mark :: "'a pmm_scheme \<Rightarrow> 'a pmm_scheme" where
  "pmm_init_mark s =
     for_lt (pmm_region_count s) (\<lambda>i s. pmm_mark_region (pmm_regions s ! unat i) s) s"

definition pmm_init_report :: "'a pmm_scheme \<Rightarrow> 'a pmm_scheme" where
  "pmm_init_report s =
     (let s = printk ''PMM: Initialized. Managing %u pages (%u KB)\<newline>''
                [KInt (pmm_total_pages s), KInt ((pmm_total_pages s * PMM_PAGE_SIZE) div 1024)] s;
          s = printk ''PMM: Bitmap size: %u entries (%u bytes)\<newline>''
                [KInt (pmm_bitmap_size s), KInt (pmm_bitmap_size s * 4)] s
      in printk ''PMM: Free pages: %u (%u KB)\<newline>''
           [KInt (pmm_free_page_count s), KInt ((pmm_free_page_count s * PMM_PAGE_SIZE) div 1024)] s)"

definition pmm_init :: "'a pmm_scheme \<Rightarrow> int \<times> 'a pmm_scheme" where
  "pmm_init s =
     (if pmm_initialized s then (PMM_SUCCESS, s)
      else
       (let s = printk ''PMM: Initializing Physical Memory Manager...\<newline>'' [] s;
            s = pmm_init_bitmap s;
            s = pmm_init_regions s;
            s = pmm_init_mark s;
            s = s\<lparr>pmm_free_page_count := pmm_count_free s\<rparr>;
            s = s\<lparr>pmm_last_allocated := 0, pmm_initialized := True\<rparr>
        in (PMM_SUCCESS, pmm_init_report s)))"

section \<open>Allocation\<close>

text \<open>
  The next-fit loop: the first argument counts the iterations left, \<open>i\<close>, \<open>found\<close> and
  \<open>start_page\<close> are the variables of the loop.
\<close>

fun pmm_find_loop :: "'a pmm_scheme \<Rightarrow> u32 \<Rightarrow> u32 \<Rightarrow> nat \<Rightarrow> u32 \<Rightarrow> u32 \<Rightarrow> u32 \<Rightarrow> u32" where
  "pmm_find_loop s count start 0 i found start_page = 0xFFFFFFFF"
| "pmm_find_loop s count start (Suc k) i found start_page =
     (let page = (start + i) mod pmm_total_pages s
      in if \<not> pmm_test_bit page s then
           (let start_page' = (if found = 0 then page else start_page);
                found' = found + 1
            in if found' = count then start_page'
               else pmm_find_loop s count start k (i + 1) found' start_page')
         else pmm_find_loop s count start k (i + 1) 0 start_page)"

definition pmm_find_free_pages :: "u32 \<Rightarrow> 'a pmm_scheme \<Rightarrow> u32" where
  "pmm_find_free_pages count s =
     (if \<not> pmm_initialized s \<or> count = 0 then 0xFFFFFFFF
      else pmm_find_loop s count (pmm_last_allocated s) (unat (pmm_total_pages s)) 0 0 0)"

definition pmm_alloc_pages :: "u32 \<Rightarrow> 'a pmm_scheme \<Rightarrow> u32 \<times> 'a pmm_scheme" where
  "pmm_alloc_pages count s =
     (if \<not> pmm_initialized s \<or> count = 0 \<or> pmm_free_page_count s < count then (NULL, s)
      else
       (let start_page = pmm_find_free_pages count s
        in if start_page = 0xFFFFFFFF then (NULL, s)
           else
            (let s = for_lt count (\<lambda>i. pmm_set_bit (start_page + i)) s;
                 s = s\<lparr>pmm_free_page_count := pmm_free_page_count s - count\<rparr>;
                 s = s\<lparr>pmm_last_allocated := (start_page + count) mod pmm_total_pages s\<rparr>;
                 phys_addr = PMM_MANAGED_START + start_page * PMM_PAGE_SIZE;
                 total_words = (count * PMM_PAGE_SIZE) div 4;
                 s = s\<lparr>mem := zero_words total_words phys_addr (mem s)\<rparr>
             in (phys_addr, s))))"

definition pmm_alloc_page :: "'a pmm_scheme \<Rightarrow> u32 \<times> 'a pmm_scheme" where
  "pmm_alloc_page s = pmm_alloc_pages 1 s"

section \<open>Release and reservation\<close>

definition pmm_free_one :: "u32 \<Rightarrow> u32 \<Rightarrow> u32 \<Rightarrow> 'a pmm_scheme \<Rightarrow> 'a pmm_scheme" where
  "pmm_free_one addr start_page i s =
     (let s = (if \<not> pmm_test_bit (start_page + i) s
               then printk ''PMM: Warning - freeing already free page at 0x%x\<newline>''
                      [KInt (addr + i * PMM_PAGE_SIZE)] s
               else s)
      in pmm_clear_bit (start_page + i) s)"

definition pmm_free_pages :: "u32 \<Rightarrow> u32 \<Rightarrow> 'a pmm_scheme \<Rightarrow> int \<times> 'a pmm_scheme" where
  "pmm_free_pages pages count s =
     (if \<not> pmm_initialized s \<or> pages = NULL \<or> count = 0 then (PMM_ERROR_INVALID, s)
      else if pages AND (PMM_PAGE_SIZE - 1) \<noteq> 0 then (PMM_ERROR_ALIGNED, s)
      else if pages < PMM_MANAGED_START \<or> pages \<ge> PMM_MANAGED_START + PMM_MANAGED_SIZE
      then (PMM_ERROR_INVALID, s)
      else
       (let start_page = (pages - PMM_MANAGED_START) div PMM_PAGE_SIZE
        in if start_page + count > pmm_total_pages s then (PMM_ERROR_INVALID, s)
           else
            (let s = for_lt count (pmm_free_one pages start_page) s;
                 s = s\<lparr>pmm_free_page_count := pmm_free_page_count s + count\<rparr>
             in (PMM_SUCCESS, s))))"

definition pmm_free_page :: "u32 \<Rightarrow> 'a pmm_scheme \<Rightarrow> int \<times> 'a pmm_scheme" where
  "pmm_free_page page s = pmm_free_pages page 1 s"

definition pmm_reserve_one :: "u32 \<Rightarrow> 'a pmm_scheme \<Rightarrow> 'a pmm_scheme" where
  "pmm_reserve_one page s =
     (if \<not> pmm_test_bit page s
      then (pmm_set_bit page s)\<lparr>pmm_free_page_count := pmm_free_page_count s - 1\<rparr> else s)"

definition pmm_reserve_region :: "u32 \<Rightarrow> u32 \<Rightarrow> 'a pmm_scheme \<Rightarrow> int \<times> 'a pmm_scheme" where
  "pmm_reserve_region start sz s =
     (if \<not> pmm_initialized s then (PMM_ERROR_INVALID, s)
      else
       (let start_page = pmm_addr_to_page start;
            page_count = (sz + PMM_PAGE_SIZE - 1) div PMM_PAGE_SIZE
        in if start \<ge> PMM_MANAGED_START then
             (let start_page = start_page - pmm_addr_to_page PMM_MANAGED_START
              in (PMM_SUCCESS,
                  for_guard (unat page_count) 0 (\<lambda>i. start_page + i < pmm_total_pages s)
                    (\<lambda>i. pmm_reserve_one (start_page + i)) s))
           else (PMM_SUCCESS, s)))"

definition pmm_release_one :: "u32 \<Rightarrow> 'a pmm_scheme \<Rightarrow> 'a pmm_scheme" where
  "pmm_release_one page s =
     (if pmm_test_bit page s
      then (pmm_clear_bit page s)\<lparr>pmm_free_page_count := pmm_free_page_count s + 1\<rparr> else s)"

definition pmm_mark_available :: "u32 \<Rightarrow> u32 \<Rightarrow> 'a pmm_scheme \<Rightarrow> int \<times> 'a pmm_scheme" where
  "pmm_mark_available start sz s =
     (if \<not> pmm_initialized s then (PMM_ERROR_INVALID, s)
      else
       (let start_page = pmm_addr_to_page start;
            page_count = (sz + PMM_PAGE_SIZE - 1) div PMM_PAGE_SIZE
        in if start \<ge> PMM_MANAGED_START then
             (let start_page = start_page - pmm_addr_to_page PMM_MANAGED_START
              in (PMM_SUCCESS,
                  for_guard (unat page_count) 0 (\<lambda>i. start_page + i < pmm_total_pages s)
                    (\<lambda>i. pmm_release_one (start_page + i)) s))
           else (PMM_SUCCESS, s)))"

section \<open>Queries and reports\<close>

definition pmm_get_stats :: "'a pmm_scheme \<Rightarrow> pmm_stats_t" where
  "pmm_get_stats s =
     (let stats = \<lparr>total_pages = 0, free_pages = 0, used_pages = 0, reserved_pages = 0,
                   bitmap_size = 0, last_allocated_page = 0\<rparr>
      in if pmm_initialized s
         then stats\<lparr>total_pages := pmm_total_pages s,
                    free_pages := pmm_free_page_count s,
                    used_pages := pmm_total_pages s - pmm_free_page_count s,
                    bitmap_size := pmm_bitmap_size s * 4,
                    last_allocated_page := pmm_last_allocated s\<rparr>
         else stats)"

definition pmm_print_stats :: "'a pmm_scheme \<Rightarrow> 'a pmm_scheme" where
  "pmm_print_stats s =
     (if \<not> pmm_initialized s then printk ''PMM: Not initialized\<newline>'' [] s
      else
       (let stats = pmm_get_stats s;
            s = printk ''PMM Statistics:\<newline>'' [] s;
            s = printk ''  Total pages: %u (%u KB)\<newline>''
                  [KInt (total_pages stats), KInt ((total_pages stats * PMM_PAGE_SIZE) div 1024)] s;
            s = printk ''  Free pages: %u (%u KB)\<newline>''
                  [KInt (free_pages stats), KInt ((free_pages stats * PMM_PAGE_SIZE) div 1024)] s;
            s = printk ''  Used pages: %u (%u KB)\<newline>''
                  [KInt (used_pages stats), KInt ((used_pages stats * PMM_PAGE_SIZE) div 1024)] s;
            s = printk ''  Bitmap size: %u bytes\<newline>'' [KInt (bitmap_size stats)] s;
            s = printk ''  Last allocated: page %u\<newline>'' [KInt (last_allocated_page stats)] s
        in printk ''  Memory utilization: %u%%\<newline>''
             [KInt ((used_pages stats * 100) div total_pages stats)] s))"

definition region_type_str :: "u32 \<Rightarrow> string" where
  "region_type_str type =
     (if type = PMM_REGION_RESERVED then ''Reserved''
      else if type = PMM_REGION_AVAILABLE then ''Available''
      else if type = PMM_REGION_KERNEL then ''Kernel'' else ''Unknown'')"

definition pmm_print_memory_map :: "'a pmm_scheme \<Rightarrow> 'a pmm_scheme" where
  "pmm_print_memory_map s =
     for_lt (pmm_region_count s)
       (\<lambda>i s. let r = pmm_regions s ! unat i in
          printk ''  0x%08x - 0x%08x (%u KB) %s\<newline>''
            [KInt (start_address r), KInt (start_address r + region_size r - 1),
             KInt (region_size r div 1024), KStr (Some (region_type_str (region_type r)))] s)
       (printk ''PMM Memory Map:\<newline>'' [] s)"

definition pmm_get_free_memory :: "'a pmm_scheme \<Rightarrow> u32" where
  "pmm_get_free_memory s = (if pmm_initialized s then pmm_free_page_count s * PMM_PAGE_SIZE else 0)"

definition pmm_get_used_memory :: "'a pmm_scheme \<Rightarrow> u32" where
  "pmm_get_used_memory s =
     (if pmm_initialized s then (pmm_total_pages s - pmm_free_page_count s) * PMM_PAGE_SIZE else 0)"

definition pmm_is_page_allocated :: "u32 \<Rightarrow> 'a pmm_scheme \<Rightarrow> bool" where
  "pmm_is_page_allocated page s =
     (if \<not> pmm_initialized s \<or> page = NULL then True
      else if page < PMM_MANAGED_START \<or> page \<ge> PMM_MANAGED_START + PMM_MANAGED_SIZE then True
      else pmm_test_bit ((page - PMM_MANAGED_START) div PMM_PAGE_SIZE) s)"

definition pmm_dump_bitmap :: "u32 \<Rightarrow> u32 \<Rightarrow> 'a pmm_scheme \<Rightarrow> 'a pmm_scheme" where
  "pmm_dump_bitmap start_page count s =
     (if \<not> pmm_initialized s then printk ''PMM: Not initialized\<newline>'' [] s
      else
       (let s = printk ''PMM Bitmap dump (pages %u-%u):\<newline>'' [KInt start_page, KInt (start_page + count - 1)] s;
            s = for_guard (unat count) 0 (\<lambda>i. start_page + i < pmm_total_pages s)
                  (\<lambda>i s. let s = (if i mod 32 = 0 then printk ''\<newline>%04u: '' [KInt (start_page + i)] s else s)
                         in printk ''%c'' [KInt (if pmm_test_bit (start_page + i) s then 88 else 46)] s) s
        in printk ''\<newline>'' [] s))"

end
