(* ===== verification/PMM_Bitmap.thy ===== *)
theory PMM_Bitmap
  imports PMM
begin

text \<open>
  The bitmap of the physical memory manager as a set of free pages. The locale
  \<open>page_bitmap\<close> states what the allocator relies on when it sets, clears and tests bits; its
  lemmas say what the loops over page ranges do to the set of free pages. It is interpreted
  on the code's bit operations over memory.
\<close>

section \<open>The interface\<close>

definition free_bits :: "(u32 \<Rightarrow> 's \<Rightarrow> bool) \<Rightarrow> nat \<Rightarrow> 's \<Rightarrow> nat set" where
  "free_bits test N s = {p. p < N \<and> \<not> test (of_nat p) s}"

lemma free_bits_finite [simp]: "finite (free_bits test N s)"
  by (simp add: free_bits_def)

lemma free_bits_bound: "p \<in> free_bits test N s \<Longrightarrow> p < N"
  by (simp add: free_bits_def)

locale page_bitmap =
  fixes test :: "u32 \<Rightarrow> 's \<Rightarrow> bool" and set1 clear1 :: "u32 \<Rightarrow> 's \<Rightarrow> 's"
    and ok :: "'s \<Rightarrow> bool" and N :: nat
  assumes N_le: "N < 4294967296"
    and ok_set: "ok s \<Longrightarrow> ok (set1 q s)"
    and ok_clear: "ok s \<Longrightarrow> ok (clear1 q s)"
    and test_set: "ok s \<Longrightarrow> unat p < N \<Longrightarrow> test p (set1 q s) \<longleftrightarrow> p = q \<or> test p s"
    and test_clear: "ok s \<Longrightarrow> unat p < N \<Longrightarrow> test p (clear1 q s) \<longleftrightarrow> p \<noteq> q \<and> test p s"
    and test_out: "ok s \<Longrightarrow> N \<le> unat p \<Longrightarrow> test p s"
begin

lemma test_free: "ok s \<Longrightarrow> \<not> test p s \<longleftrightarrow> unat p \<in> free_bits test N s"
  using test_out [of s p] by (cases "unat p < N") (auto simp: free_bits_def)

lemma of_nat_eq_iff: "i < N \<Longrightarrow> of_nat i = (q :: u32) \<longleftrightarrow> i = unat q"
  using N_le unat_of_nat_small [of i] by auto

lemma free_set: "ok s \<Longrightarrow> free_bits test N (set1 q s) = free_bits test N s - {unat q}"
  using N_le by (auto simp: free_bits_def test_set unat_of_nat_small of_nat_eq_iff)

lemma free_clear: "ok s \<Longrightarrow> free_bits test N (clear1 q s) = free_bits test N s \<union> {p. p = unat q \<and> p < N}"
  using N_le by (auto simp: free_bits_def test_clear unat_of_nat_small of_nat_eq_iff)

lemma unat_index: "unat sp + n \<le> 4294967296 \<Longrightarrow> i < n \<Longrightarrow> unat (sp + of_nat i) = unat sp + i" for sp :: u32
  by (simp add: unat_word_ariths unat_of_nat)

lemma fold_set:
  assumes "ok s" "unat sp + n \<le> 4294967296"
  shows "ok (fold (\<lambda>i. set1 (sp + of_nat i)) [0..<n] s) \<and>
    free_bits test N (fold (\<lambda>i. set1 (sp + of_nat i)) [0..<n] s) = free_bits test N s - {unat sp..<unat sp + n}"
proof (rule fold_upt_invariant [where P = "\<lambda>k s'. ok s' \<and>
    free_bits test N s' = free_bits test N s - {unat sp..<unat sp + k}"])
  fix i s' assume i: "i < n" and s': "ok s' \<and> free_bits test N s' = free_bits test N s - {unat sp..<unat sp + i}"
  have "{unat sp..<unat sp + Suc i} = insert (unat sp + i) {unat sp..<unat sp + i}" by auto
  then show "ok (set1 (sp + of_nat i) s') \<and> free_bits test N (set1 (sp + of_nat i) s') =
      free_bits test N s - {unat sp..<unat sp + Suc i}"
    using s' by (simp add: ok_set free_set unat_index [OF assms(2) i]
        Diff_insert [of _ _ "{unat sp..<unat sp + i}"])
qed (use assms in simp)

lemma fold_clear:
  assumes "ok s" "unat sp + n \<le> 4294967296"
  shows "ok (fold (\<lambda>i. clear1 (sp + of_nat i)) [0..<n] s) \<and>
    free_bits test N (fold (\<lambda>i. clear1 (sp + of_nat i)) [0..<n] s) =
      free_bits test N s \<union> {p. unat sp \<le> p \<and> p < unat sp + n \<and> p < N}"
proof (rule fold_upt_invariant [where P = "\<lambda>k s'. ok s' \<and>
    free_bits test N s' = free_bits test N s \<union> {p. unat sp \<le> p \<and> p < unat sp + k \<and> p < N}"])
  fix i s' assume i: "i < n" and s': "ok s' \<and> free_bits test N s' =
    free_bits test N s \<union> {p. unat sp \<le> p \<and> p < unat sp + i \<and> p < N}"
  have "{p. unat sp \<le> p \<and> p < unat sp + Suc i \<and> p < N} =
      {p. unat sp \<le> p \<and> p < unat sp + i \<and> p < N} \<union> {p. p = unat sp + i \<and> p < N}" by auto
  then show "ok (clear1 (sp + of_nat i) s') \<and> free_bits test N (clear1 (sp + of_nat i) s') =
      free_bits test N s \<union> {p. unat sp \<le> p \<and> p < unat sp + Suc i \<and> p < N}"
    using s' by (simp add: ok_clear free_clear unat_index [OF assms(2) i] Un_assoc)
qed (use assms in auto)

text \<open>The loop that counts the clear bits.\<close>

lemma card_free_Suc: "card {p. p < Suc i \<and> \<not> test (of_nat p) s} =
    card {p. p < i \<and> \<not> test (of_nat p) s} + (if test (of_nat i) s then 0 else 1)"
proof -
  have "{p. p < Suc i \<and> \<not> test (of_nat p) s} =
      (if test (of_nat i) s then {p. p < i \<and> \<not> test (of_nat p) s}
       else insert i {p. p < i \<and> \<not> test (of_nat p) s})"
    by (auto simp: less_Suc_eq)
  then show ?thesis by simp
qed

lemma count_free:
  "for_lt (of_nat N) (\<lambda>i n. if \<not> test i s then n + 1 else n) 0 = (of_nat (card (free_bits test N s)) :: u32)"
proof -
  have "for_lt (of_nat N) (\<lambda>i n. if \<not> test i s then n + 1 else n) (0 :: u32) =
      of_nat (card {p. p < unat (of_nat N :: u32) \<and> \<not> test (of_nat p) s})"
    by (rule for_lt_invariant [where P = "\<lambda>i n. n = of_nat (card {p. p < i \<and> \<not> test (of_nat p) s})"])
      (simp_all add: card_free_Suc)
  then show ?thesis using N_le by (simp add: free_bits_def unat_of_nat_small)
qed

end

section \<open>The code's bitmap\<close>

text \<open>Where \<open>pmm_init\<close> puts the bitmap and how many pages it covers.\<close>

definition pmm_layout :: "'a pmm_scheme \<Rightarrow> bool" where
  "pmm_layout s \<longleftrightarrow> pmm_bitmap s = PMM_MANAGED_START \<and> pmm_bitmap_size s = 128 \<and> pmm_total_pages s = 4096"

abbreviation pmm_free_set :: "'a pmm_scheme \<Rightarrow> nat set" where
  "pmm_free_set \<equiv> free_bits pmm_test_bit 4096"

lemma page_aligned_managed [simp]: "page_aligned 0x1020000"
  by (simp add: aligned_def)

lemma unat_div32 [simp]: "unat (p div 32 :: u32) = unat p div 32"
  by (simp add: unat_div)

lemma unat_mod32 [simp]: "unat (p mod 32 :: u32) = unat p mod 32"
  by (simp add: unat_mod)

lemma word_split32: "p = q \<longleftrightarrow> p div 32 = q div 32 \<and> p mod 32 = q mod 32" for p q :: u32
  by (metis div_mult_mod_eq)

lemma entry_in_range: "p div 32 < 128 \<longleftrightarrow> unat p < 4096" for p :: u32
  by (simp add: word_less_nat_alt) linarith

lemma bitmap_entry_store:
  assumes "pmm_layout s" "unat i < 128" "unat j < 128"
  shows "bitmap_entry (bitmap_store j v s) i = (if i = j then v else bitmap_entry s i)"
  using assms by (auto simp: bitmap_entry_def bitmap_store_def pmm_layout_def mem_simps elem4_aligned
      elem4_inj [of i j 0, simplified])

lemma bitmap_store_fields [simp]:
  "pmm_bitmap (bitmap_store j v s) = pmm_bitmap s" "pmm_bitmap_size (bitmap_store j v s) = pmm_bitmap_size s"
  "pmm_total_pages (bitmap_store j v s) = pmm_total_pages s"
  "pmm_free_page_count (bitmap_store j v s) = pmm_free_page_count s"
  "pmm_last_allocated (bitmap_store j v s) = pmm_last_allocated s"
  "pmm_initialized (bitmap_store j v s) = pmm_initialized s"
  "pmm_regions (bitmap_store j v s) = pmm_regions s" "pmm_region_count (bitmap_store j v s) = pmm_region_count s"
  "kout (bitmap_store j v s) = kout s" "io (bitmap_store j v s) = io s" "cr0 (bitmap_store j v s) = cr0 s"
  "cr3 (bitmap_store j v s) = cr3 s" "cr4 (bitmap_store j v s) = cr4 s" "pmm.more (bitmap_store j v s) = pmm.more s"
  by (simp_all add: bitmap_store_def)

lemma pmm_layout_store [simp]: "pmm_layout (bitmap_store j v s) = pmm_layout s"
  by (simp add: pmm_layout_def)

lemma test_bit_eq:
  "pmm_layout s \<Longrightarrow> pmm_test_bit p s \<longleftrightarrow> (unat p < 4096 \<longrightarrow> bit (bitmap_entry s (p div 32)) (unat p mod 32))"
  by (simp add: pmm_test_bit_def pmm_page_to_bitmap_def pmm_layout_def entry_in_range
      bit_iff_and_push_bit_not_eq_0 del: push_bit_of_1)

lemma set_bit_eq:
  "pmm_layout s \<Longrightarrow> pmm_set_bit p s = (if unat p < 4096
     then bitmap_store (p div 32) (bitmap_entry s (p div 32) OR push_bit (unat p mod 32) 1) s else s)"
  by (simp add: pmm_set_bit_def pmm_page_to_bitmap_def pmm_layout_def entry_in_range)

lemma clear_bit_eq:
  "pmm_layout s \<Longrightarrow> pmm_clear_bit p s = (if unat p < 4096
     then bitmap_store (p div 32) (bitmap_entry s (p div 32) AND NOT (push_bit (unat p mod 32) 1)) s else s)"
  by (simp add: pmm_clear_bit_def pmm_page_to_bitmap_def pmm_layout_def entry_in_range)

lemma pmm_layout_bits [simp]:
  "pmm_layout (pmm_set_bit p s) = pmm_layout s" "pmm_layout (pmm_clear_bit p s) = pmm_layout s"
  by (simp_all add: pmm_set_bit_def pmm_clear_bit_def split_beta)

lemma test_set_bit:
  assumes "pmm_layout s" "unat p < 4096"
  shows "pmm_test_bit p (pmm_set_bit q s) \<longleftrightarrow> p = q \<or> pmm_test_bit p s"
proof (cases "unat q < 4096")
  case True
  have "p = q \<longleftrightarrow> p div 32 = q div 32 \<and> unat p mod 32 = unat q mod 32"
    using word_split32 [of p q] by (metis unat_mod32 word_eq_unatI)
  then show ?thesis using assms True
    by (auto simp: test_bit_eq set_bit_eq bitmap_entry_store bit_or_iff bit_one_at)
next
  case False
  with assms have "p \<noteq> q" by auto
  with False assms show ?thesis by (simp add: set_bit_eq)
qed

lemma test_clear_bit:
  assumes "pmm_layout s" "unat p < 4096"
  shows "pmm_test_bit p (pmm_clear_bit q s) \<longleftrightarrow> p \<noteq> q \<and> pmm_test_bit p s"
proof (cases "unat q < 4096")
  case True
  have "p = q \<longleftrightarrow> p div 32 = q div 32 \<and> unat p mod 32 = unat q mod 32"
    using word_split32 [of p q] by (metis unat_mod32 word_eq_unatI)
  then show ?thesis using assms True
    by (auto simp: test_bit_eq clear_bit_eq bitmap_entry_store bit_and_iff bit_not_iff bit_one_at)
next
  case False
  with assms have "p \<noteq> q" by auto
  with False assms show ?thesis by (simp add: clear_bit_eq)
qed

interpretation bm: page_bitmap pmm_test_bit pmm_set_bit pmm_clear_bit pmm_layout 4096
  by unfold_locales (simp_all add: test_set_bit test_clear_bit, simp add: test_bit_eq)

end
