(* ===== verification/PMM_Init.thy ===== *)
theory PMM_Init
  imports PMM_Bitmap
begin

text \<open>
  What the bit operations leave alone, the invariant of the physical memory manager, and
  the state \<open>pmm_init\<close> establishes.
\<close>

section \<open>Only the bitmap's page changes\<close>

definition bitmap_only :: "'a pmm_scheme \<Rightarrow> 'a pmm_scheme \<Rightarrow> bool" where
  "bitmap_only s s' \<longleftrightarrow> (\<exists>m. s' = s\<lparr>mem := m\<rparr> \<and> (\<forall>x. page_no x \<noteq> 0x1020 \<longrightarrow> m x = mem s x))"

lemma bitmap_only_refl [simp]: "bitmap_only s s"
  unfolding bitmap_only_def by (rule exI [of _ "mem s"]) simp

lemma bitmap_only_trans: "bitmap_only s s' \<Longrightarrow> bitmap_only s' s'' \<Longrightarrow> bitmap_only s s''"
  by (auto simp: bitmap_only_def)

lemma bitmap_only_fields:
  assumes "bitmap_only s s'"
  shows "pmm_bitmap s' = pmm_bitmap s" "pmm_bitmap_size s' = pmm_bitmap_size s"
    "pmm_total_pages s' = pmm_total_pages s" "pmm_free_page_count s' = pmm_free_page_count s"
    "pmm_last_allocated s' = pmm_last_allocated s" "pmm_initialized s' = pmm_initialized s"
    "pmm_regions s' = pmm_regions s" "pmm_region_count s' = pmm_region_count s"
    "kout s' = kout s" "io s' = io s" "pmm.more s' = pmm.more s" "cr0 s' = cr0 s" "cr3 s' = cr3 s"
    "cr4 s' = cr4 s" "pmm_layout s' = pmm_layout s"
  using assms by (auto simp: bitmap_only_def pmm_layout_def)

lemma bitmap_only_layout: "bitmap_only s s' \<Longrightarrow> pmm_layout s \<Longrightarrow> pmm_layout s'"
  using bitmap_only_fields(15) by blast

lemma bitmap_only_mem: "bitmap_only s s' \<Longrightarrow> page_no x \<noteq> 0x1020 \<Longrightarrow> mem s' x = mem s x"
  by (auto simp: bitmap_only_def)

lemma page_no_managed [simp]: "page_no 0x1020000 = 0x1020"
  by (simp add: page_no_def)

lemma bitmap_store_only:
  assumes "pmm_layout s" "unat j < 128"
  shows "bitmap_only s (bitmap_store j v s)"
proof -
  have "page_no (0x1020000 + 4 * j) = 0x1020"
    using elem4_page [OF page_aligned_managed, of j] assms(2) by simp
  then have "store32 (0x1020000 + 4 * j) v (mem s) x = mem s x" if "page_no x \<noteq> 0x1020" for x
    using that by (intro w32.st_page elem4_aligned) auto
  then show ?thesis using assms(1)
    by (auto simp: bitmap_only_def bitmap_store_def pmm_layout_def)
qed

lemma unat_div32_small: "unat p < 4096 \<Longrightarrow> unat p div 32 < (128 :: nat)"
  by linarith

lemma set_bit_only: "pmm_layout s \<Longrightarrow> bitmap_only s (pmm_set_bit p s)"
  by (simp add: set_bit_eq bitmap_store_only unat_div32_small)

lemma clear_bit_only: "pmm_layout s \<Longrightarrow> bitmap_only s (pmm_clear_bit p s)"
  by (simp add: clear_bit_eq bitmap_store_only unat_div32_small)

text \<open>Loops whose body changes only the bitmap.\<close>

lemma bitmap_only_for_lt:
  assumes "pmm_layout s" "\<And>i s'. i < unat n \<Longrightarrow> pmm_layout s' \<Longrightarrow> bitmap_only s' (f (of_nat i) s')"
  shows "bitmap_only s (for_lt n f s)"
proof (rule for_lt_invariant [where P = "\<lambda>_ s'. bitmap_only s s'"])
  fix i s' assume "i < unat n" and s': "bitmap_only s s'"
  then have "bitmap_only s' (f (of_nat i) s')" using assms bitmap_only_layout by blast
  with s' show "bitmap_only s (f (of_nat i) s')" by (rule bitmap_only_trans)
qed simp

lemma fold_set_bit_only:
  assumes "pmm_layout s"
  shows "bitmap_only s (fold (\<lambda>i. pmm_set_bit (sp + of_nat i)) [0..<n] s)"
proof (rule fold_upt_invariant [where P = "\<lambda>_ s'. bitmap_only s s'"])
  fix i s' assume s': "bitmap_only s s'"
  have "bitmap_only s' (pmm_set_bit (sp + of_nat i) s')"
    by (rule set_bit_only) (rule bitmap_only_layout [OF s' assms])
  with s' show "bitmap_only s (pmm_set_bit (sp + of_nat i) s')" by (rule bitmap_only_trans)
qed simp

section \<open>The invariant\<close>

text \<open>
  The bitmap is where \<open>pmm_init\<close> put it, the search position is a page, the page that holds
  the bitmap is not free, and the count of free pages is the number of clear bits.
\<close>

definition pmm_inv :: "'a pmm_scheme \<Rightarrow> bool" where
  "pmm_inv s \<longleftrightarrow> pmm_initialized s \<and> pmm_layout s \<and> unat (pmm_last_allocated s) < 4096 \<and>
     0 \<notin> pmm_free_set s \<and> unat (pmm_free_page_count s) = card (pmm_free_set s)"

lemma card_free_le: "card (pmm_free_set s) \<le> 4096"
proof -
  have "pmm_free_set s \<subseteq> {..<4096}" by (auto simp: free_bits_def)
  then show ?thesis using card_mono [of "{..<4096::nat}"] by fastforce
qed

lemma free_page_count_of_nat: "unat (of_nat (card (pmm_free_set s)) :: u32) = card (pmm_free_set s)"
  using card_free_le [of s] by (simp add: unat_of_nat_small)

section \<open>Initialisation\<close>

text \<open>The C program starts with its static variables zero.\<close>

definition pmm_power_on :: "memory \<Rightarrow> pmm" where
  "pmm_power_on m = \<lparr>mem = m, kout = [], io = [], cr0 = 0, cr3 = 0, cr4 = 0,
     pmm_bitmap = 0, pmm_bitmap_size = 0, pmm_total_pages = 0, pmm_free_page_count = 0,
     pmm_last_allocated = 0, pmm_initialized = False,
     pmm_regions = replicate 16 \<lparr>start_address = 0, region_size = 0, region_type = 0\<rparr>,
     pmm_region_count = 0\<rparr>"

lemma clear_entries:
  assumes "pmm_layout s"
  shows "bitmap_only s (for_lt 128 (\<lambda>i. bitmap_store i 0) s)"
    "pmm_free_set (for_lt 128 (\<lambda>i. bitmap_store i 0) s) = {..<4096}"
proof -
  define P where "P k s' \<longleftrightarrow> bitmap_only s s' \<and> (\<forall>j<k. bitmap_entry s' (of_nat j) = 0)" for k s'
  have P: "P (unat (128 :: u32)) (for_lt 128 (\<lambda>i. bitmap_store i 0) s)"
  proof (rule for_lt_invariant [where P = P])
    show "P 0 s" by (simp add: P_def)
  next
    fix i s' assume i: "i < unat (128 :: u32)" and s': "P i s'"
    then have l: "pmm_layout s'" using assms bitmap_only_layout unfolding P_def by blast
    have u: "unat (of_nat j :: u32) < 128" if "j \<le> i" for j
      using that i by (simp add: unat_of_nat_small)
    have "bitmap_only s' (bitmap_store (of_nat i) 0 s')" using l u by (rule bitmap_store_only) simp
    then have "bitmap_only s (bitmap_store (of_nat i) 0 s')" using s' bitmap_only_trans unfolding P_def by blast
    then show "P (Suc i) (bitmap_store (of_nat i) 0 s')"
      using s' l u by (auto simp: P_def bitmap_entry_store less_Suc_eq)
  qed
  then show "bitmap_only s (for_lt 128 (\<lambda>i. bitmap_store i 0) s)" by (simp add: P_def)
  then have l: "pmm_layout (for_lt 128 (\<lambda>i. bitmap_store i 0) s)"
    using assms bitmap_only_layout by blast
  have "bitmap_entry (for_lt 128 (\<lambda>i. bitmap_store i 0) s) (of_nat p div 32) = 0" if "p < 4096" for p
  proof -
    have "(of_nat p div 32 :: u32) = of_nat (p div 32)"
      by (rule word_eq_unatI) (use that in \<open>simp add: unat_of_nat_small\<close>)
    moreover have "p div 32 < 128" using that by linarith
    ultimately show ?thesis using P by (simp add: P_def)
  qed
  then show "pmm_free_set (for_lt 128 (\<lambda>i. bitmap_store i 0) s) = {..<4096}"
    by (auto simp: free_bits_def test_bit_eq [OF l] unat_of_nat_small)
qed

lemma pmm_count_free_eq: "pmm_layout s \<Longrightarrow> pmm_count_free s = of_nat (card (pmm_free_set s))"
  using bm.count_free [of s] by (simp add: pmm_count_free_def pmm_layout_def)

text \<open>Only the third region, the bitmap itself, lies in the managed range: one page.\<close>

definition init_regions :: "pmm_region_t list" where
  "init_regions =
     [\<lparr>start_address = 0x8000, region_size = 0x18000, region_type = 2\<rparr>,
      \<lparr>start_address = 0x20000, region_size = 0x1000000, region_type = 0\<rparr>,
      \<lparr>start_address = 0x1020000, region_size = 512, region_type = 0\<rparr>,
      \<lparr>start_address = 0x1021000, region_size = 0xFFF000, region_type = 1\<rparr>]"

lemma mark_regions:
  assumes "pmm_layout s" "take 4 (pmm_regions s) = init_regions"
  shows "for_lt 4 (\<lambda>i s. pmm_mark_region (pmm_regions s ! unat i) s) s = pmm_set_bit 0 s"
proof -
  have r: "pmm_regions s ! i = init_regions ! i" if "i < 4" for i
    using assms(2) that by (metis nth_take)
  have f: "pmm_regions (pmm_set_bit 0 s) = pmm_regions s"
    using bitmap_only_fields(7) [OF set_bit_only [OF assms(1)]] .
  have "pmm_total_pages s = 4096" using assms(1) by (simp add: pmm_layout_def)
  then show ?thesis
    by (simp add: for_lt_def upt_rec [of _ 4] unat_of_nat r f init_regions_def pmm_mark_region_def
        pmm_addr_to_page_def numeral_eq_Suc [of num.One])
qed


lemma pmm_init_bitmap_eq:
  defines "s1 \<equiv> \<lambda>s. s\<lparr>pmm_total_pages := 4096, pmm_bitmap_size := 128, pmm_bitmap := 0x1020000\<rparr>"
  shows "pmm_layout (pmm_init_bitmap s)" "pmm_free_set (pmm_init_bitmap s) = {..<4096}"
    "bitmap_only (s1 s) (pmm_init_bitmap s)"
proof -
  have l: "pmm_layout (s1 s)" by (simp add: s1_def pmm_layout_def)
  have e: "pmm_init_bitmap s = for_lt 128 (\<lambda>i. bitmap_store i 0) (s1 s)"
    by (simp add: pmm_init_bitmap_def s1_def Let_def)
  show "bitmap_only (s1 s) (pmm_init_bitmap s)" "pmm_free_set (pmm_init_bitmap s) = {..<4096}"
    unfolding e by (rule clear_entries [OF l])+
  then show "pmm_layout (pmm_init_bitmap s)" using l bitmap_only_layout by blast
qed

lemma pmm_init_regions_eq:
  assumes "pmm_layout s" "length (pmm_regions s) = 16"
  shows "pmm_init_regions s = s\<lparr>pmm_regions := init_regions @ drop 4 (pmm_regions s), pmm_region_count := 4\<rparr>"
proof -
  have "length (pmm_regions s) = Suc (Suc (Suc (Suc 12)))" using assms(2) by simp
  then obtain a b c d xs where "pmm_regions s = a # b # c # d # xs"
    unfolding length_Suc_conv by blast
  then obtain rs where rs: "pmm_regions s = rs" "rs = a # b # c # d # xs" by blast
  have size: "pmm_bitmap_size s = 128" using assms(1) by (simp add: pmm_layout_def)
  have step: "snd (pmm_add_region start sz type (s\<lparr>pmm_regions := rs, pmm_region_count := n\<rparr>)) =
      s\<lparr>pmm_regions := rs[unat n := \<lparr>start_address = start, region_size = sz, region_type = type\<rparr>],
        pmm_region_count := n + 1\<rparr>" if "n < 16" for start sz type rs n
    using that by (simp add: pmm_add_region_def not_le)
  have "s\<lparr>pmm_region_count := 0\<rparr> = s\<lparr>pmm_regions := rs, pmm_region_count := 0\<rparr>" using rs by simp
  then have "pmm_init_regions s = snd (pmm_add_region 0x1021000 0xFFF000 1 (snd (pmm_add_region 0x1020000 512 0
     (snd (pmm_add_region 0x20000 0x1000000 0 (snd (pmm_add_region 0x8000 0x18000 2
       (s\<lparr>pmm_regions := rs, pmm_region_count := 0\<rparr>))))))))"
    using size by (simp add: pmm_init_regions_def step)
  then show ?thesis using rs by (simp add: step init_regions_def)
qed

lemma pmm_init_mark_eq:
  assumes "pmm_layout s" "take 4 (pmm_regions s) = init_regions" "pmm_region_count s = 4"
  shows "pmm_init_mark s = pmm_set_bit 0 s"
  using mark_regions [OF assms(1,2)] assms(3) by (simp add: pmm_init_mark_def)

lemma free_set_cong:
  "mem s' = mem s \<Longrightarrow> pmm_bitmap s' = pmm_bitmap s \<Longrightarrow> pmm_bitmap_size s' = pmm_bitmap_size s \<Longrightarrow>
   pmm_free_set s' = pmm_free_set s"
  by (simp add: free_bits_def pmm_test_bit_def bitmap_entry_def)

lemma pmm_init_report_fields [simp]:
  "mem (pmm_init_report s) = mem s" "pmm_bitmap (pmm_init_report s) = pmm_bitmap s"
  "pmm_bitmap_size (pmm_init_report s) = pmm_bitmap_size s" "pmm_total_pages (pmm_init_report s) = pmm_total_pages s"
  "pmm_free_page_count (pmm_init_report s) = pmm_free_page_count s"
  "pmm_last_allocated (pmm_init_report s) = pmm_last_allocated s"
  "pmm_initialized (pmm_init_report s) = pmm_initialized s" "pmm_regions (pmm_init_report s) = pmm_regions s"
  "pmm_region_count (pmm_init_report s) = pmm_region_count s" "io (pmm_init_report s) = io s"
  "pmm.more (pmm_init_report s) = pmm.more s"
  by (simp_all add: pmm_init_report_def Let_def)

text \<open>The state \<open>pmm_init\<close> reaches from the static variables' initial values.\<close>

lemma pmm_init_state:
  assumes "\<not> pmm_initialized s" "length (pmm_regions s) = 16" "pmm_init s = (r, s')"
  shows "r = PMM_SUCCESS" "pmm_inv s'" "pmm_free_set s' = {1..<4096}"
    "take 4 (pmm_regions s') = init_regions" "pmm_region_count s' = 4" "pmm_last_allocated s' = 0"
    "page_no x \<noteq> 0x1020 \<Longrightarrow> mem s' x = mem s x" "pmm.more s' = pmm.more s" "io s' = io s"
proof -
  define s0 where "s0 = printk ''PMM: Initializing Physical Memory Manager...\<newline>'' [] s"
  define s1 where "s1 = pmm_init_bitmap s0"
  define s2 where "s2 = pmm_init_regions s1"
  define s3 where "s3 = pmm_init_mark s2"
  note b = pmm_init_bitmap_eq [of s0, folded s1_def]
  have r1: "pmm_regions s1 = pmm_regions s" using bitmap_only_fields(7) [OF b(3)] by (simp add: s0_def)
  have e2: "s2 = s1\<lparr>pmm_regions := init_regions @ drop 4 (pmm_regions s1), pmm_region_count := 4\<rparr>"
    unfolding s2_def using pmm_init_regions_eq [OF b(1)] r1 assms(2) by simp
  have l2: "pmm_layout s2" using b(1) by (simp add: e2 pmm_layout_def)
  have e3: "s3 = pmm_set_bit 0 s2"
    unfolding s3_def by (rule pmm_init_mark_eq [OF l2]) (simp_all add: e2 init_regions_def)
  note o3 = set_bit_only [OF l2, of 0, folded e3]
  have l3: "pmm_layout s3" by (rule bitmap_only_layout [OF o3 l2])
  have f2: "pmm_free_set s2 = {..<4096}" using b(2) free_set_cong [of s2 s1] by (simp add: e2)
  have f3: "pmm_free_set s3 = {1..<4096}" 
  proof -
    have "{..<4096} - {0} = {1..<4096::nat}" by force
    then show ?thesis using bm.free_set [OF l2, of 0] f2 by (simp add: e3)
  qed
  have e: "pmm_init s = (PMM_SUCCESS, pmm_init_report
      (s3\<lparr>pmm_free_page_count := pmm_count_free s3, pmm_last_allocated := 0, pmm_initialized := True\<rparr>))"
    by (simp only: pmm_init_def Let_def s3_def s2_def s1_def s0_def assms(1) if_False)
  have s': "s' = pmm_init_report
      (s3\<lparr>pmm_free_page_count := pmm_count_free s3, pmm_last_allocated := 0, pmm_initialized := True\<rparr>)"
    and "r = PMM_SUCCESS" using assms(3) e by simp_all
  then show "r = PMM_SUCCESS" "pmm_last_allocated s' = 0" by simp_all
  show f': "pmm_free_set s' = {1..<4096}" using f3 free_set_cong [of s' s3] by (simp add: s')
  have "pmm_layout s'" using l3 by (simp add: s' pmm_layout_def)
  then show "pmm_inv s'" using f' f3 l3 by (simp add: pmm_inv_def) (simp add: s' pmm_count_free_eq unat_of_nat_small)
  show "take 4 (pmm_regions s') = init_regions" "pmm_region_count s' = 4" "pmm.more s' = pmm.more s" "io s' = io s"
    using bitmap_only_fields [OF o3] bitmap_only_fields [OF b(3)]
    by (simp_all add: s' e2 init_regions_def s0_def)
  show "page_no x \<noteq> 0x1020 \<Longrightarrow> mem s' x = mem s x"
    using bitmap_only_mem [OF o3, of x] bitmap_only_mem [OF b(3), of x] by (simp add: s' e2 s0_def)
qed

end
