(* ===== verification/PMM_Find.thy ===== *)
theory PMM_Find
  imports PMM_Init
begin

text \<open>
  The next-fit search. \<open>scan\<close> is the search over positions: the first position from which
  \<open>c\<close> consecutive positions satisfy a predicate, as a loop with a run counter. The code's
  loop is shown to be \<open>scan\<close> over the cyclic order of pages that starts at the last
  allocation; the invariant then excludes a block that crosses the end of the managed range.
\<close>

section \<open>The search over positions\<close>

fun scan :: "(nat \<Rightarrow> bool) \<Rightarrow> nat \<Rightarrow> nat \<Rightarrow> nat \<Rightarrow> nat \<Rightarrow> nat option" where
  "scan P c 0 i found = None"
| "scan P c (Suc k) i found =
     (if P i then (if Suc found = c then Some (Suc i - c) else scan P c k (Suc i) (Suc found))
      else scan P c k (Suc i) 0)"

lemma scan_Some:
  "scan P c k i found = Some q \<Longrightarrow> found < c \<Longrightarrow> found \<le> i \<Longrightarrow> (\<forall>j<found. P (i - found + j)) \<Longrightarrow>
   q + c \<le> i + k \<and> (\<forall>j<c. P (q + j))"
proof (induction P c k i found rule: scan.induct)
  case (1 P c i found)
  then show ?case by simp
next
  case (2 P c k i found)
  show ?case
  proof (cases "P i")
    case True
    have run: "\<forall>j<Suc found. P (Suc i - Suc found + j)"
      using "2.prems"(3,4) True by (auto simp: less_Suc_eq)
    show ?thesis
    proof (cases "Suc found = c")
      case c: True
      then show ?thesis using "2.prems" True run by auto
    next
      case False
      then show ?thesis using "2.IH"(1) [OF True False] "2.prems" True run by simp
    qed
  next
    case False
    then show ?thesis using "2.IH"(2) [OF False] "2.prems" by simp
  qed
qed

text \<open>No window is passed over: neither before the one found nor when none is found.\<close>

lemma scan_first:
  "found < c \<Longrightarrow> found \<le> i \<Longrightarrow> (found < i \<Longrightarrow> \<not> P (i - Suc found)) \<Longrightarrow>
   i < q + c \<Longrightarrow> q + c \<le> i + k \<Longrightarrow> (\<And>q'. scan P c k i found = Some q' \<Longrightarrow> q < q') \<Longrightarrow>
   \<exists>j<c. \<not> P (q + j)"
proof (induction P c k i found rule: scan.induct)
  case (1 P c i found)
  then show ?case by simp
next
  case (2 P c k i found)
  show ?case
  proof (cases "P i")
    case False
    show ?thesis
    proof (cases "q \<le> i")
      case True
      then show ?thesis using False "2.prems"(4) by (intro exI [of _ "i - q"]) auto
    next
      case q: False
      show ?thesis using "2.IH"(2) [OF False] "2.prems" False q by simp
    qed
  next
    case P: True
    have run: "q < i - found \<Longrightarrow> \<exists>j<c. \<not> P (q + j)"
      using "2.prems" by (intro exI [of _ "i - Suc found - q"]) auto
    show ?thesis
    proof (cases "Suc found = c")
      case True
      then have "q < Suc i - c" using "2.prems"(6) P by simp
      then show ?thesis using run True by simp
    next
      case False
      show ?thesis
      proof (cases "Suc i < q + c")
        case True
        then show ?thesis using "2.IH"(1) [OF P False] "2.prems" P False by simp
      next
        case q: False
        then have "q < i - found" using "2.prems"(1,2,4) False by simp
        then show ?thesis by (rule run)
      qed
    qed
  qed
qed

section \<open>The code's loop\<close>

definition cyclic_free :: "'a pmm_scheme \<Rightarrow> nat \<Rightarrow> bool" where
  "cyclic_free s q \<longleftrightarrow> (unat (pmm_last_allocated s) + q) mod 4096 \<in> pmm_free_set s"

lemma unat_mod4096: "unat (p mod 4096 :: u32) = unat p mod 4096"
  by (simp add: unat_mod)

lemma find_loop_scan:
  assumes "pmm_layout s" "unat (pmm_last_allocated s) < 4096"
  shows "i + k \<le> 4096 \<Longrightarrow> found \<le> i \<Longrightarrow>
    (0 < found \<Longrightarrow> unat sp = (unat (pmm_last_allocated s) + (i - found)) mod 4096) \<Longrightarrow>
    pmm_find_loop s count (pmm_last_allocated s) k (of_nat i) (of_nat found) sp =
      (case scan (cyclic_free s) (unat count) k i found of
         None \<Rightarrow> 0xFFFFFFFF | Some q \<Rightarrow> of_nat ((unat (pmm_last_allocated s) + q) mod 4096))"
proof (induction k arbitrary: i found sp)
  case 0
  then show ?case by simp
next
  case (Suc k)
  define page where "page = (pmm_last_allocated s + of_nat i) mod 4096"
  have up: "unat page = (unat (pmm_last_allocated s) + i) mod 4096"
    using assms(2) Suc.prems(1) by (simp add: page_def unat_mod4096 unat_add_small unat_of_nat_small)
  have free: "\<not> pmm_test_bit page s \<longleftrightarrow> cyclic_free s i"
    using bm.test_free [OF assms(1), of page] by (simp add: cyclic_free_def up)
  have total: "pmm_total_pages s = 4096" using assms(1) by (simp add: pmm_layout_def)
  have fc: "of_nat found + 1 = count \<longleftrightarrow> Suc found = unat count"
    using of_nat_inj32 [of "Suc found" "unat count"] unat32_less [of count] Suc.prems by (simp add: add.commute)
  have f0: "(of_nat found :: u32) = 0 \<longleftrightarrow> found = 0"
    using of_nat_inj32 [of found 0] Suc.prems by simp
  define sp' where "sp' = (if found = 0 then page else sp)"
  have sp': "unat sp' = (unat (pmm_last_allocated s) + (Suc i - Suc found)) mod 4096"
    using Suc.prems(3) up by (simp add: sp'_def)
  have "of_nat (unat sp') = sp'" by simp
  then have "sp' = of_nat ((unat (pmm_last_allocated s) + (Suc i - Suc found)) mod 4096)"
    unfolding sp' by (rule sym)
  note sp'' = this
  consider "cyclic_free s i" "unat count = Suc found" | "cyclic_free s i" "unat count \<noteq> Suc found"
    | "\<not> cyclic_free s i" by blast
  then show ?case
  proof cases
    case 1
    then show ?thesis using sp''
      by (simp add: total fc f0 free Let_def flip: page_def sp'_def)
  next
    case 2
    then show ?thesis using Suc.IH [of "Suc i" "Suc found" sp'] Suc.prems sp'
      by (simp add: total fc f0 free Let_def add.commute [of 1] flip: page_def sp'_def)
  next
    case 3
    then show ?thesis using Suc.IH [of "Suc i" 0 sp] Suc.prems
      by (simp add: total free Let_def add.commute [of 1] flip: page_def)
  qed
qed

lemma find_scan:
  assumes "pmm_inv s" "count \<noteq> 0"
  shows "pmm_find_free_pages count s =
    (case scan (cyclic_free s) (unat count) 4096 0 0 of
       None \<Rightarrow> 0xFFFFFFFF | Some q \<Rightarrow> of_nat ((unat (pmm_last_allocated s) + q) mod 4096))"
proof -
  have inv: "pmm_layout s" "pmm_initialized s" "unat (pmm_last_allocated s) < 4096"
    using assms(1) by (simp_all add: pmm_inv_def)
  then have "unat (pmm_total_pages s) = 4096" by (simp add: pmm_layout_def)
  then show ?thesis using find_loop_scan [OF inv(1,3), of 0 4096 0 0 count] inv assms(2)
    by (simp add: pmm_find_free_pages_def)
qed

section \<open>Correctness of the search\<close>

text \<open>A run of free pages in the cyclic order does not cross the end: page 0 is not free.\<close>

lemma cyclic_run_straight:
  assumes "0 \<notin> pmm_free_set s" "\<forall>j<c. cyclic_free s (q + j)" "j < c"
  shows "(unat (pmm_last_allocated s) + q) mod 4096 + j < 4096 \<and>
    (unat (pmm_last_allocated s) + q) mod 4096 + j \<in> pmm_free_set s"
  using assms(3)
proof (induction j)
  case 0
  then show ?case using assms(2) by (auto simp: cyclic_free_def)
next
  case (Suc j)
  define r where "r = (unat (pmm_last_allocated s) + q) mod 4096"
  have "cyclic_free s (q + Suc j)" using assms(2) Suc.prems by blast
  moreover have "(unat (pmm_last_allocated s) + (q + Suc j)) mod 4096 = (r + Suc j) mod 4096"
    unfolding r_def mod_add_left_eq by (simp only: add.assoc)
  ultimately have f: "(r + Suc j) mod 4096 \<in> pmm_free_set s" by (simp add: cyclic_free_def)
  have "r + Suc j \<noteq> 4096" using f assms(1) by (metis mod_self)
  then have "r + Suc j < 4096" using Suc by (simp add: r_def)
  then show ?case using f by (simp add: r_def)
qed

lemma find_sound:
  assumes "pmm_inv s" "count \<noteq> 0" "pmm_find_free_pages count s \<noteq> 0xFFFFFFFF"
  shows "unat (pmm_find_free_pages count s) + unat count \<le> 4096"
    "{unat (pmm_find_free_pages count s)..<unat (pmm_find_free_pages count s) + unat count} \<subseteq> pmm_free_set s"
proof -
  define c where "c = unat count"
  have c: "0 < c" using assms(2) by (simp add: c_def unat_gt_0)
  obtain q where q: "scan (cyclic_free s) c 4096 0 0 = Some q"
    using assms(3) find_scan [OF assms(1,2)] by (auto simp: c_def split: option.splits)
  define r where "r = (unat (pmm_last_allocated s) + q) mod 4096"
  have r: "unat (pmm_find_free_pages count s) = r"
    using find_scan [OF assms(1,2)] q by (simp add: c_def r_def unat_of_nat_small)
  have run: "\<forall>j<c. cyclic_free s (q + j)" using scan_Some [OF q] c by simp
  have z: "0 \<notin> pmm_free_set s" using assms(1) by (simp add: pmm_inv_def)
  note straight = cyclic_run_straight [OF z run, folded r_def]
  have "r + (c - 1) < 4096" using straight [of "c - 1"] c by simp
  then show "unat (pmm_find_free_pages count s) + unat count \<le> 4096" using r c by (simp add: c_def)
  show "{unat (pmm_find_free_pages count s)..<unat (pmm_find_free_pages count s) + unat count} \<subseteq> pmm_free_set s"
  proof
    fix p assume "p \<in> {unat (pmm_find_free_pages count s)..<unat (pmm_find_free_pages count s) + unat count}"
    then have "r \<le> p" "p - r < c" by (auto simp: r c_def)
    then show "p \<in> pmm_free_set s" using straight [of "p - r"] by simp
  qed
qed

text \<open>
  The search finds every block that does not straddle the position it starts from.
\<close>

lemma find_complete:
  assumes "pmm_inv s" "count \<noteq> 0" "{a..<a + unat count} \<subseteq> pmm_free_set s"
    "unat (pmm_last_allocated s) \<le> a \<or> a + unat count \<le> unat (pmm_last_allocated s)"
  shows "pmm_find_free_pages count s \<noteq> 0xFFFFFFFF"
proof
  assume none: "pmm_find_free_pages count s = 0xFFFFFFFF"
  define st where "st = unat (pmm_last_allocated s)"
  define c where "c = unat count"
  have c: "0 < c" using assms(2) by (simp add: c_def unat_gt_0)
  have st: "st < 4096" using assms(1) by (simp add: pmm_inv_def st_def)
  have "a + (c - 1) \<in> pmm_free_set s" using assms(3) c by (auto simp: c_def)
  then have top: "a + c \<le> 4096" using c by (auto simp: free_bits_def)
  define q where "q = (if st \<le> a then a - st else a + 4096 - st)"
  have q: "q + c \<le> 4096" "st + q = a \<or> st + q = a + 4096"
    using assms(4) top st by (auto simp: q_def c_def st_def)
  have none': "scan (cyclic_free s) c 4096 0 0 = None"
  proof (rule ccontr)
    assume "scan (cyclic_free s) c 4096 0 0 \<noteq> None"
    then obtain q' where "pmm_find_free_pages count s = of_nat ((st + q') mod 4096)"
      using find_scan [OF assms(1,2)] by (auto simp: c_def st_def)
    then have "unat (pmm_find_free_pages count s) = (st + q') mod 4096"
      by (simp add: unat_of_nat_small)
    then have "unat (pmm_find_free_pages count s) < 4096" by simp
    then show False unfolding none by simp
  qed
  have "\<exists>j<c. \<not> cyclic_free s (q + j)"
    using c q none' by (intro scan_first [where i = 0 and k = 4096 and found = 0]) auto
  then obtain j where j: "j < c" "\<not> cyclic_free s (q + j)" by blast
  have "st + (q + j) = a + j \<or> st + (q + j) = a + j + 4096" using q(2) by linarith
  then have "(st + (q + j)) mod 4096 = (a + j) mod 4096" by (metis mod_add_self2)
  then have "(st + (q + j)) mod 4096 = a + j" using j(1) top by simp
  then have "a + j \<notin> pmm_free_set s" using j(2) by (simp add: cyclic_free_def st_def)
  moreover have "a + j \<in> {a..<a + unat count}" using j(1) by (simp add: c_def)
  ultimately show False using assms(3) by blast
qed

text \<open>The block found does not straddle that position, and it is the first one after it.\<close>

lemma find_position:
  assumes "pmm_inv s" "count \<noteq> 0" "pmm_find_free_pages count s \<noteq> 0xFFFFFFFF"
  obtains q where "scan (cyclic_free s) (unat count) 4096 0 0 = Some q" "q + unat count \<le> 4096"
    "unat (pmm_find_free_pages count s) = (unat (pmm_last_allocated s) + q) mod 4096"
    "\<forall>j<unat count. cyclic_free s (q + j)"
proof -
  have c: "0 < unat count" using assms(2) by (simp add: unat_gt_0)
  obtain q where q: "scan (cyclic_free s) (unat count) 4096 0 0 = Some q"
    using assms(3) find_scan [OF assms(1,2)] by (auto split: option.splits)
  then show ?thesis using that [OF q] scan_Some [OF q] c find_scan [OF assms(1,2)]
    by (simp add: unat_of_nat_small)
qed

lemma find_no_straddle:
  assumes "pmm_inv s" "count \<noteq> 0" "pmm_find_free_pages count s \<noteq> 0xFFFFFFFF"
  defines "r \<equiv> unat (pmm_find_free_pages count s)"
  shows "unat (pmm_last_allocated s) \<le> r \<or> r + unat count \<le> unat (pmm_last_allocated s)"
proof -
  define st where "st = unat (pmm_last_allocated s)"
  obtain q where q: "q + unat count \<le> 4096" "r = (st + q) mod 4096"
    using find_position [OF assms(1-3)] unfolding r_def st_def by metis
  have "st < 4096" using assms(1) by (simp add: pmm_inv_def st_def)
  then have "st + q < 4096 \<and> r = st + q \<or> 4096 \<le> st + q \<and> r = st + q - 4096"
    using q by (auto simp: le_mod_geq mod_if)
  then show ?thesis using q(1) unfolding st_def [symmetric] by linarith
qed

lemma find_earliest:
  assumes "pmm_inv s" "count \<noteq> 0" "pmm_find_free_pages count s \<noteq> 0xFFFFFFFF"
    "{a..<a + unat count} \<subseteq> pmm_free_set s" "unat (pmm_last_allocated s) \<le> a"
  shows "unat (pmm_last_allocated s) \<le> unat (pmm_find_free_pages count s)"
    "unat (pmm_find_free_pages count s) \<le> a"
proof -
  define st where "st = unat (pmm_last_allocated s)"
  define c where "c = unat count"
  have c: "0 < c" using assms(2) by (simp add: c_def unat_gt_0)
  obtain q where q: "scan (cyclic_free s) c 4096 0 0 = Some q" "unat (pmm_find_free_pages count s) = (st + q) mod 4096"
    using find_position [OF assms(1-3)] unfolding st_def c_def by metis
  have "a + (c - 1) \<in> pmm_free_set s" using assms(4) c by (auto simp: c_def)
  then have top: "a + c \<le> 4096" using c by (auto simp: free_bits_def)
  have "q \<le> a - st"
  proof (rule ccontr)
    assume "\<not> q \<le> a - st"
    then have "\<exists>j<c. \<not> cyclic_free s ((a - st) + j)"
      using c q(1) top by (intro scan_first [where i = 0 and k = 4096 and found = 0]) auto
    then obtain j where j: "j < c" "\<not> cyclic_free s (a - st + j)" by blast
    have "st + (a - st + j) = a + j" using assms(5) by (simp add: st_def)
    then have "a + j \<notin> pmm_free_set s" using j top by (simp add: cyclic_free_def st_def)
    moreover have "a + j \<in> {a..<a + unat count}" using j(1) by (simp add: c_def)
    ultimately show False using assms(4) by blast
  qed
  then have "st + q \<le> a" "st + q < 4096" using assms(5) top c by (simp_all add: st_def)
  then show "unat (pmm_last_allocated s) \<le> unat (pmm_find_free_pages count s)"
    "unat (pmm_find_free_pages count s) \<le> a" using q(2) by (simp_all add: st_def)
qed

end
