(* ===== verification/PMM_Ops.thy ===== *)
theory PMM_Ops
  imports PMM_Find
begin

text \<open>
  The operations of the physical memory manager as operations on the set of free pages:
  allocation, release, reservation, and when each keeps the invariant.
\<close>

section \<open>Address arithmetic of the managed range\<close>

definition managed_addr :: "nat \<Rightarrow> u32" where
  "managed_addr p = 0x1020000 + of_nat p * 4096"

lemma unat_managed_addr: "p \<le> 4096 \<Longrightarrow> unat (managed_addr p) = 0x1020000 + p * 4096"
  by (simp add: managed_addr_def unat_add_small unat_mult_small unat_of_nat_small)

lemma managed_addr_nonnull: "p \<le> 4096 \<Longrightarrow> managed_addr p \<noteq> 0"
  using unat_managed_addr [of p] by auto

lemma page_aligned_managed_addr: "page_aligned (managed_addr p)"
  unfolding managed_addr_def
  by (intro aligned_add) (simp_all add: mult.commute [of _ 4096] aligned_mult aligned_numeral)

lemma page_no_managed_addr: "p \<le> 4096 \<Longrightarrow> unat (page_no (managed_addr p)) = 0x1020 + p"
  by (simp add: unat_page_no unat_managed_addr)

lemma page_of_managed: "p < 4096 \<Longrightarrow> (managed_addr p - 0x1020000) div 4096 = of_nat p"
proof (rule word_eq_unatI)
  assume p: "p < 4096"
  then have "unat (managed_addr p - 0x1020000) = p * 4096"
    by (subst unat_sub_le) (simp_all add: unat_managed_addr)
  then show "unat ((managed_addr p - 0x1020000) div 4096) = unat (of_nat p :: u32)"
    using p by (simp add: unat_div unat_of_nat_small)
qed

lemma managed_addr_aligned_mask: "managed_addr p AND 4095 = 0"
proof -
  have "managed_addr p AND mask 12 = 0"
    using page_aligned_managed_addr [of p] by (simp add: aligned_def take_bit_eq_mask)
  then show ?thesis by (simp add: mask_eq_exp_minus_1)
qed

section \<open>Field lemmas\<close>

lemma free_set_page_cong:
  assumes "pmm_layout s" "pmm_bitmap s' = pmm_bitmap s" "pmm_bitmap_size s' = pmm_bitmap_size s"
    "\<And>x. page_no x = 0x1020 \<Longrightarrow> mem s' x = mem s x"
  shows "pmm_free_set s' = pmm_free_set s"
proof -
  have "bitmap_entry s' i = bitmap_entry s i" if "unat i < 1024" for i
    using assms that elem4_page [OF page_aligned_managed that]
    by (auto simp: bitmap_entry_def pmm_layout_def elem4_aligned intro: w32.ld_page)
  moreover have "unat (of_nat p div 32 :: u32) < 1024" if "p < 4096" for p
    using that by (simp add: unat_of_nat_small)
  ultimately show ?thesis using assms(2,3)
    by (auto simp: free_bits_def pmm_test_bit_def pmm_page_to_bitmap_def)
qed

lemma pmm_inv_cong:
  assumes "pmm_inv s" "pmm_bitmap s' = pmm_bitmap s" "pmm_bitmap_size s' = pmm_bitmap_size s"
    "pmm_total_pages s' = pmm_total_pages s" "pmm_initialized s' = pmm_initialized s"
    "pmm_last_allocated s' = pmm_last_allocated s" "pmm_free_page_count s' = pmm_free_page_count s"
    "\<And>x. page_no x = 0x1020 \<Longrightarrow> mem s' x = mem s x"
  shows "pmm_inv s'"
  using assms free_set_page_cong [of s s'] by (simp add: pmm_inv_def pmm_layout_def)

section \<open>Allocation\<close>

lemma alloc_null: "pmm_alloc_pages count s = (0, s') \<Longrightarrow> pmm_inv s \<Longrightarrow> s' = s"
proof (rule ccontr)
  assume a: "pmm_alloc_pages count s = (0, s')" and inv: "pmm_inv s" and "s' \<noteq> s"
  then have "count \<noteq> 0" and r: "pmm_find_free_pages count s \<noteq> 0xFFFFFFFF"
    and p: "0x1020000 + pmm_find_free_pages count s * 4096 = 0"
    by (auto simp: pmm_alloc_pages_def Let_def split: if_splits)
  have "unat (pmm_find_free_pages count s) \<le> 4096"
    using find_sound(1) [OF inv \<open>count \<noteq> 0\<close> r] by simp
  from managed_addr_nonnull [OF this] p show False by (simp add: managed_addr_def)
qed

lemma zero_block:
  assumes "sp + unat count \<le> 4096"
  shows "zero_words ((count * 4096) div 4) (managed_addr sp) m =
    (\<lambda>x. if in_range (managed_addr sp) (4096 * unat count) x then 0 else m x)"
proof -
  have "unat (count * 4096) = unat count * 4096"
    using assms by (intro unat_mult_small [of count 4096, simplified]) simp
  then have w: "unat ((count * 4096) div 4) = 1024 * unat count"
    by (simp add: unat_div)
  then have "unat (managed_addr sp) + 4 * unat ((count * 4096) div 4) \<le> 4294967296"
    using assms by (simp add: unat_managed_addr)
  then show ?thesis using w by (subst zero_words_range) (simp_all add: mult.assoc)
qed

lemma alloc_result:
  assumes inv: "pmm_inv s" and alloc: "pmm_alloc_pages count s = (p, s')" and p: "p \<noteq> 0"
  obtains sp where "p = managed_addr sp" "0 < sp" "sp + unat count \<le> 4096" "0 < unat count"
    "{sp..<sp + unat count} \<subseteq> pmm_free_set s"
    "pmm_free_set s' = pmm_free_set s - {sp..<sp + unat count}" "pmm_inv s'"
    "\<forall>x. in_range p (4096 * unat count) x \<longrightarrow> mem s' x = 0"
    "\<forall>x. \<not> in_range p (4096 * unat count) x \<and> page_no x \<noteq> 0x1020 \<longrightarrow> mem s' x = mem s x"
    "kout s' = kout s" "io s' = io s" "pmm.more s' = pmm.more s"
proof -
  define spw where "spw = pmm_find_free_pages count s"
  define sp where "sp = unat spw"
  define s1 where "s1 = for_lt count (\<lambda>i. pmm_set_bit (spw + i)) s"
  from alloc p have c: "count \<noteq> 0" and found: "spw \<noteq> 0xFFFFFFFF" and pa: "p = 0x1020000 + spw * 4096"
    and s': "s' = s1\<lparr>pmm_free_page_count := pmm_free_page_count s1 - count,
        pmm_last_allocated := (spw + count) mod pmm_total_pages s1,
        mem := zero_words ((count * 4096) div 4) p (mem s1)\<rparr>"
    and enough: "count \<le> pmm_free_page_count s"
    by (auto simp: pmm_alloc_pages_def Let_def spw_def s1_def not_less split: if_splits)
  note l = inv [unfolded pmm_inv_def]
  have bound: "sp + unat count \<le> 4096" and free: "{sp..<sp + unat count} \<subseteq> pmm_free_set s"
    using find_sound [OF inv c found [unfolded spw_def]] by (simp_all add: sp_def spw_def)
  have cpos: "0 < unat count" using c by (simp add: unat_gt_0)
  have "sp \<in> pmm_free_set s" using free cpos by auto
  then have pos: "0 < sp" using l by (cases sp) auto
  have pm: "p = managed_addr sp" by (simp add: pa managed_addr_def sp_def)
  have o1: "bitmap_only s s1" unfolding s1_def for_lt_def using l by (intro fold_set_bit_only) simp
  have "unat spw + unat count \<le> 4294967296" using bound by (simp add: sp_def)
  then have "pmm_free_set s1 = pmm_free_set s - {unat spw..<unat spw + unat count}"
    unfolding s1_def for_lt_def using bm.fold_set [of s spw "unat count"] l by simp
  then have f1: "pmm_free_set s1 = pmm_free_set s - {sp..<sp + unat count}" by (simp add: sp_def)
  have l1: "pmm_layout s1" using bitmap_only_layout [OF o1] l by simp
  have z: "mem s' = (\<lambda>x. if in_range p (4096 * unat count) x then 0 else mem s1 x)"
    using zero_block [OF bound] by (simp add: s' pm)
  have out: "\<not> in_range p (4096 * unat count) x" if "page_no x = 0x1020" for x
  proof -
    have "unat (page_no x) < unat (page_no p)" using that pos bound by (simp add: pm page_no_managed_addr)
    moreover have "unat p + 4096 * unat count \<le> 4294967296" using bound by (simp add: pm unat_managed_addr)
    ultimately show ?thesis using in_range_pages [of p "unat count" x] page_aligned_managed_addr pm by simp
  qed
  have f': "pmm_free_set s' = pmm_free_set s - {sp..<sp + unat count}"
    using free_set_page_cong [OF l1, of s'] out f1 by (simp add: s' z [unfolded s'])
  have last: "unat ((spw + count) mod 4096) < 4096" by (simp add: unat_mod4096)
  have "card (pmm_free_set s') = card (pmm_free_set s) - unat count"
    unfolding f' using free by (subst card_Diff_subset) auto
  moreover have "unat (pmm_free_page_count s - count) = unat (pmm_free_page_count s) - unat count"
    using enough by (intro unat_sub_le) (simp add: word_le_nat_alt)
  ultimately have "pmm_inv s'"
    using l l1 last f' bitmap_only_fields [OF o1]
    by (simp add: pmm_inv_def) (simp add: s' pmm_layout_def)
  then show ?thesis
    using that [of sp] pm pos bound cpos free f' bitmap_only_fields [OF o1] bitmap_only_mem [OF o1] z
    by (simp add: s')
qed

text \<open>When a request is refused.\<close>

lemma alloc_null_iff:
  assumes "pmm_inv s"
  shows "fst (pmm_alloc_pages count s) = 0 \<longleftrightarrow>
    count = 0 \<or> pmm_free_page_count s < count \<or> pmm_find_free_pages count s = 0xFFFFFFFF"
proof -
  have "0x1020000 + pmm_find_free_pages count s * 4096 \<noteq> 0"
    if "count \<noteq> 0" "pmm_find_free_pages count s \<noteq> 0xFFFFFFFF"
    using managed_addr_nonnull [of "unat (pmm_find_free_pages count s)"] find_sound(1) [OF assms that]
    by (simp add: managed_addr_def)
  then show ?thesis using assms by (auto simp: pmm_alloc_pages_def Let_def pmm_inv_def)
qed

lemma alloc_available:
  assumes "pmm_inv s" "count \<noteq> 0" "{a..<a + unat count} \<subseteq> pmm_free_set s"
    "unat (pmm_last_allocated s) \<le> a \<or> a + unat count \<le> unat (pmm_last_allocated s)"
  shows "fst (pmm_alloc_pages count s) \<noteq> 0"
proof -
  have "unat count \<le> card (pmm_free_set s)"
    using card_mono [OF free_bits_finite assms(3)] by simp
  then have "\<not> pmm_free_page_count s < count"
    using assms(1) by (simp add: pmm_inv_def word_less_nat_alt)
  then show ?thesis using alloc_null_iff [OF assms(1)] find_complete [OF assms] assms(2) by blast
qed


section \<open>Release\<close>

text \<open>The loop of \<open>pmm_free_pages\<close>: bits cleared, a warning printed for each page that was free.\<close>

definition release_only :: "'a pmm_scheme \<Rightarrow> 'a pmm_scheme \<Rightarrow> bool" where
  "release_only s s' \<longleftrightarrow> (\<exists>ks. bitmap_only (s\<lparr>kout := kout s @ ks\<rparr>) s')"

lemma release_only_refl: "release_only s s"
  unfolding release_only_def by (rule exI [of _ "[]"]) simp

lemma release_only_trans: "release_only s s' \<Longrightarrow> release_only s' s'' \<Longrightarrow> release_only s s''"
proof -
  assume "release_only s s'" "release_only s' s''"
  then obtain ks ks' m m' where
    s': "s' = s\<lparr>kout := kout s @ ks, mem := m\<rparr>" "\<forall>x. page_no x \<noteq> 0x1020 \<longrightarrow> m x = mem s x" and
    s'': "s'' = s'\<lparr>kout := kout s' @ ks', mem := m'\<rparr>" "\<forall>x. page_no x \<noteq> 0x1020 \<longrightarrow> m' x = mem s' x"
    by (auto simp: release_only_def bitmap_only_def)
  have "s'' = s\<lparr>kout := kout s @ (ks @ ks'), mem := m'\<rparr>" using s' s'' by simp
  moreover have "\<forall>x. page_no x \<noteq> 0x1020 \<longrightarrow> m' x = mem s x" using s' s'' by simp
  ultimately show ?thesis by (auto simp: release_only_def bitmap_only_def)
qed

lemma release_only_fields:
  assumes "release_only s s'"
  shows "pmm_bitmap s' = pmm_bitmap s" "pmm_bitmap_size s' = pmm_bitmap_size s"
    "pmm_total_pages s' = pmm_total_pages s" "pmm_free_page_count s' = pmm_free_page_count s"
    "pmm_last_allocated s' = pmm_last_allocated s" "pmm_initialized s' = pmm_initialized s"
    "io s' = io s" "pmm.more s' = pmm.more s" "page_no x \<noteq> 0x1020 \<Longrightarrow> mem s' x = mem s x"
  using assms by (auto simp: release_only_def bitmap_only_def)

lemma free_one_state:
  assumes "pmm_layout s"
  shows "pmm_layout (pmm_free_one addr sp i s)" "release_only s (pmm_free_one addr sp i s)"
    "pmm_free_set (pmm_free_one addr sp i s) = pmm_free_set (pmm_clear_bit (sp + i) s)"
proof -
  define s1 where "s1 = (if \<not> pmm_test_bit (sp + i) s
    then printk ''PMM: Warning - freeing already free page at 0x%x\<newline>'' [KInt (addr + i * 4096)] s else s)"
  have e: "pmm_free_one addr sp i s = pmm_clear_bit (sp + i) s1"
    by (simp add: pmm_free_one_def s1_def Let_def)
  have l: "pmm_layout s1" using assms by (simp add: s1_def pmm_layout_def)
  show "pmm_layout (pmm_free_one addr sp i s)" using l by (simp add: e)
  have "\<exists>ks. s1 = s\<lparr>kout := kout s @ ks\<rparr>" by (auto simp: s1_def emit_def intro: exI [of _ "[]"])
  then show "release_only s (pmm_free_one addr sp i s)"
    using clear_bit_only [OF l, of "sp + i"] by (auto simp: release_only_def e)
  have "pmm_free_set s1 = pmm_free_set s" by (rule free_set_cong) (simp_all add: s1_def)
  then show "pmm_free_set (pmm_free_one addr sp i s) = pmm_free_set (pmm_clear_bit (sp + i) s)"
    using bm.free_clear [OF l] bm.free_clear [OF assms] by (simp add: e)
qed

lemma free_loop:
  assumes "pmm_layout s" "unat sp + unat count \<le> 4294967296"
  shows "pmm_layout (for_lt count (pmm_free_one addr sp) s)"
    "release_only s (for_lt count (pmm_free_one addr sp) s)"
    "pmm_free_set (for_lt count (pmm_free_one addr sp) s) =
      pmm_free_set s \<union> {p. unat sp \<le> p \<and> p < unat sp + unat count \<and> p < 4096}"
proof -
  define P where "P k s' \<longleftrightarrow> pmm_layout s' \<and> release_only s s' \<and>
    pmm_free_set s' = pmm_free_set s \<union> {p. unat sp \<le> p \<and> p < unat sp + k \<and> p < 4096}" for k s'
  have "P (unat count) (for_lt count (pmm_free_one addr sp) s)"
  proof (rule for_lt_invariant [where P = P])
    show "P 0 s" using assms(1) by (auto simp: P_def release_only_refl)
  next
    fix i s' assume i: "i < unat count" and s': "P i s'"
    then have l: "pmm_layout s'" by (simp add: P_def)
    have "unat (sp + of_nat i) = unat sp + i" using assms(2) i by (rule bm.unat_index)
    then have "pmm_free_set (pmm_free_one addr sp (of_nat i) s') =
        pmm_free_set s' \<union> {p. p = unat sp + i \<and> p < 4096}"
      by (simp add: free_one_state(3) [OF l] bm.free_clear [OF l])
    moreover have "{p. unat sp \<le> p \<and> p < unat sp + Suc i \<and> p < 4096} =
        {p. unat sp \<le> p \<and> p < unat sp + i \<and> p < 4096} \<union> {p. p = unat sp + i \<and> p < 4096}" by auto
    moreover have "release_only s (pmm_free_one addr sp (of_nat i) s')"
      using s' free_one_state(2) [OF l] unfolding P_def by (blast intro: release_only_trans)
    ultimately show "P (Suc i) (pmm_free_one addr sp (of_nat i) s')"
      using s' free_one_state(1) [OF l] by (auto simp: P_def Un_assoc)
  qed
  then show "pmm_layout (for_lt count (pmm_free_one addr sp) s)"
    "release_only s (for_lt count (pmm_free_one addr sp) s)"
    "pmm_free_set (for_lt count (pmm_free_one addr sp) s) =
      pmm_free_set s \<union> {p. unat sp \<le> p \<and> p < unat sp + unat count \<and> p < 4096}"
    by (simp_all add: P_def)
qed

text \<open>
  A release that passes the checks, for any count the bounds check lets through: a block in
  range, or a count so large that the sum wraps around.
\<close>

lemma free_accepts:
  assumes "pmm_initialized s" "pmm_layout s" "sp < 4096" "count \<noteq> 0" "of_nat sp + count \<le> 4096"
    "sp + unat count \<le> 4294967296" "pmm_free_pages (managed_addr sp) count s = (r, s')"
  shows "r = PMM_SUCCESS" "pmm_layout s'"
    "pmm_free_set s' = pmm_free_set s \<union> {p. sp \<le> p \<and> p < sp + unat count \<and> p < 4096}"
    "pmm_free_page_count s' = pmm_free_page_count s + count"
    "pmm_last_allocated s' = pmm_last_allocated s" "pmm_initialized s'" "pmm.more s' = pmm.more s"
    "page_no x \<noteq> 0x1020 \<Longrightarrow> mem s' x = mem s x"
proof -
  have u: "unat (managed_addr sp) = 0x1020000 + sp * 4096" using assms(3) by (simp add: unat_managed_addr)
  have range: "\<not> managed_addr sp < 0x1020000" "\<not> managed_addr sp \<ge> 0x2020000" "managed_addr sp \<noteq> 0"
    using u assms(3) managed_addr_nonnull [of sp] by (simp_all add: word_less_nat_alt word_le_nat_alt)
  have page: "(managed_addr sp - 0x1020000) div 4096 = of_nat sp" using assms(3) by (rule page_of_managed)
  have total: "pmm_total_pages s = 4096" using assms(2) by (simp add: pmm_layout_def)
  define s1 where "s1 = for_lt count (pmm_free_one (managed_addr sp) (of_nat sp)) s"
  have e: "pmm_free_pages (managed_addr sp) count s =
      (PMM_SUCCESS, s1\<lparr>pmm_free_page_count := pmm_free_page_count s1 + count\<rparr>)"
    using range page total assms(1,4,5) by (simp add: pmm_free_pages_def managed_addr_aligned_mask s1_def not_less Let_def)
  have sp: "unat (of_nat sp :: u32) = sp" using assms(3) by (simp add: unat_of_nat_small)
  note L = free_loop [OF assms(2), of "of_nat sp" count "managed_addr sp", folded s1_def, unfolded sp, OF assms(6)]
  have s': "s' = s1\<lparr>pmm_free_page_count := pmm_free_page_count s1 + count\<rparr>" and "r = PMM_SUCCESS"
    using e assms(7) by simp_all
  then show "r = PMM_SUCCESS" by simp
  show "pmm_layout s'" using L(1) by (simp add: s' pmm_layout_def)
  show "pmm_free_set s' = pmm_free_set s \<union> {p. sp \<le> p \<and> p < sp + unat count \<and> p < 4096}"
    using L(3) free_set_cong [of s' s1] by (simp add: s')
  show "pmm_free_page_count s' = pmm_free_page_count s + count"
    "pmm_last_allocated s' = pmm_last_allocated s" "pmm_initialized s'" "pmm.more s' = pmm.more s"
    "page_no x \<noteq> 0x1020 \<Longrightarrow> mem s' x = mem s x"
    using release_only_fields [OF L(2)] assms(1) by (simp_all add: s')
qed

text \<open>Releasing a block keeps the invariant exactly when it is in use and not the bitmap's page.\<close>

lemma free_block_inv_iff:
  assumes "pmm_inv s" "sp + unat count \<le> 4096" "count \<noteq> 0"
    "pmm_free_pages (managed_addr sp) count s = (r, s')"
  shows "r = PMM_SUCCESS" "pmm_free_set s' = pmm_free_set s \<union> {sp..<sp + unat count}"
    "pmm_inv s' \<longleftrightarrow> 0 < sp \<and> {sp..<sp + unat count} \<inter> pmm_free_set s = {}"
    "page_no x \<noteq> 0x1020 \<Longrightarrow> mem s' x = mem s x" "pmm.more s' = pmm.more s"
proof -
  have c: "0 < unat count" using assms(3) by (simp add: unat_gt_0)
  have sp: "sp < 4096" using c assms(2) by simp
  have sum: "of_nat sp + count \<le> 4096"
    using assms(2) sp by (simp add: word_le_nat_alt unat_add_small unat_of_nat_small)
  note I = assms(1) [unfolded pmm_inv_def]
  note F = free_accepts [OF _ _ sp assms(3) sum _ assms(4)]
  show "r = PMM_SUCCESS" using F(1) I assms(2) by simp
  have "{p. sp \<le> p \<and> p < sp + unat count \<and> p < 4096} = {sp..<sp + unat count}" using assms(2) by auto
  then show f: "pmm_free_set s' = pmm_free_set s \<union> {sp..<sp + unat count}" using F(3) I assms(2) by simp
  have "unat (pmm_free_page_count s + count) = card (pmm_free_set s) + unat count"
    using I card_free_le [of s] assms(2) by (simp add: unat_add_small)
  moreover have "card (pmm_free_set s') = card (pmm_free_set s) + unat count \<longleftrightarrow>
      {sp..<sp + unat count} \<inter> pmm_free_set s = {}"
    using card_Un_Int [of "pmm_free_set s" "{sp..<sp + unat count}"]
    by (auto simp: f Int_commute card_eq_0_iff)
  moreover have "0 \<notin> pmm_free_set s' \<longleftrightarrow> 0 < sp" using I c by (auto simp: f)
  ultimately show "pmm_inv s' \<longleftrightarrow> 0 < sp \<and> {sp..<sp + unat count} \<inter> pmm_free_set s = {}"
    using F(2,4,5,6) I assms(2) by (auto simp: pmm_inv_def)
  show "page_no x \<noteq> 0x1020 \<Longrightarrow> mem s' x = mem s x" "pmm.more s' = pmm.more s"
    using F(7,8) I assms(2) by simp_all
qed

text \<open>The refusals, in the order of the code's checks, leave the state alone.\<close>

lemma free_refused:
  assumes "pmm_initialized s"
  shows "addr = 0 \<or> count = 0 \<Longrightarrow> pmm_free_pages addr count s = (PMM_ERROR_INVALID, s)"
    "addr \<noteq> 0 \<Longrightarrow> count \<noteq> 0 \<Longrightarrow> addr AND 4095 \<noteq> 0 \<Longrightarrow> pmm_free_pages addr count s = (PMM_ERROR_ALIGNED, s)"
    "addr AND 4095 = 0 \<Longrightarrow> addr < 0x1020000 \<or> 0x2020000 \<le> addr \<Longrightarrow>
       pmm_free_pages addr count s = (PMM_ERROR_INVALID, s)"
  using assms by (auto simp: pmm_free_pages_def)

end
