(* ===== verification/PMM_Region.thy ===== *)
theory PMM_Region
  imports PMM_Ops
begin

text \<open>
  Reserving and releasing address ranges: the guarded loops of \<open>pmm_reserve_region\<close> and
  \<open>pmm_mark_available\<close> as operations on the set of free pages, and the reachable states of
  the manager.
\<close>

section \<open>The guarded loop over a range\<close>

text \<open>The pages of a byte range inside the managed range, as the code counts them.\<close>

definition region_first :: "u32 \<Rightarrow> nat" where
  "region_first start = unat start div 4096 - 0x1020"

definition region_count :: "u32 \<Rightarrow> nat" where
  "region_count sz = unat ((sz + 4095) div 4096)"

definition region_pages :: "u32 \<Rightarrow> u32 \<Rightarrow> nat set" where
  "region_pages start sz =
     {p. region_first start \<le> p \<and> p < region_first start + region_count sz \<and> p < 4096}"

lemma region_count_less: "region_count sz < 1048576"
  using unat32_less [of "sz + 4095"] by (simp add: region_count_def unat_div less_mult_imp_div_less)

lemma region_first_less: "region_first start < 1048576"
  using unat32_less [of start] by (auto simp: region_first_def intro: le_less_trans less_mult_imp_div_less)

lemma unat_region_first:
  assumes "0x1020000 \<le> start"
  shows "unat (start div 4096 - 0x1020) = region_first start"
proof -
  have "0x1020000 \<le> unat start" using assms by (simp add: word_le_nat_alt)
  then have "0x1020 \<le> unat start div 4096" by linarith
  then show ?thesis by (subst unat_sub_le) (simp_all add: unat_div region_first_def)
qed

lemma region_loop:
  assumes "0x1020000 \<le> start"
  defines "spw \<equiv> start div 4096 - 0x1020"
  shows "for_guard (unat ((sz + 4095) div 4096)) 0 (\<lambda>i. spw + i < 4096) (\<lambda>i. f (spw + i)) s =
    fold (\<lambda>j. f (spw + of_nat j)) [0..<min (region_count sz) (4096 - region_first start)] s"
proof -
  define m where "m = min (region_count sz) (4096 - region_first start)"
  have sp: "unat spw = region_first start" unfolding spw_def by (rule unat_region_first [OF assms(1)])
  have u: "unat (spw + of_nat j) = region_first start + j" if "j < 1048576" for j
    using that region_first_less [of start] sp by (simp add: unat_add_small unat_of_nat_small)
  have g: "spw + of_nat j < 4096 \<longleftrightarrow> region_first start + j < 4096" if "j < 1048576" for j
    using u [OF that] by (simp add: word_less_nat_alt)
  have "for_guard (region_count sz) 0 (\<lambda>i. spw + i < 4096) (\<lambda>i. f (spw + i)) s =
      fold (\<lambda>j. f (spw + (0 + of_nat j))) [0..<m] s"
  proof (rule for_guard_fold)
    fix j assume "j < m"
    then have "j < 1048576" "region_first start + j < 4096"
      using region_count_less [of sz] unfolding m_def by linarith+
    then show "spw + (0 + of_nat j) < 4096" using g [of j] by simp
  next
    assume "m < region_count sz"
    then have "m < 1048576" "\<not> region_first start + m < 4096"
      using region_count_less [of sz] unfolding m_def by linarith+
    then show "\<not> spw + (0 + of_nat m) < 4096" using g [of m] by simp
  next
    show "m \<le> region_count sz" by (simp add: m_def)
  qed
  then show ?thesis by (simp add: region_count_def m_def)
qed

section \<open>One page\<close>

lemma bit_fields [simp]:
  "pmm_initialized (pmm_set_bit p s) = pmm_initialized s" "pmm_initialized (pmm_clear_bit p s) = pmm_initialized s"
  "pmm_last_allocated (pmm_set_bit p s) = pmm_last_allocated s" "pmm_last_allocated (pmm_clear_bit p s) = pmm_last_allocated s"
  "pmm_total_pages (pmm_set_bit p s) = pmm_total_pages s" "pmm_total_pages (pmm_clear_bit p s) = pmm_total_pages s"
  "pmm_free_page_count (pmm_set_bit p s) = pmm_free_page_count s" "pmm_free_page_count (pmm_clear_bit p s) = pmm_free_page_count s"
  "pmm.more (pmm_set_bit p s) = pmm.more s" "pmm.more (pmm_clear_bit p s) = pmm.more s"
  "kout (pmm_set_bit p s) = kout s" "kout (pmm_clear_bit p s) = kout s"
  "io (pmm_set_bit p s) = io s" "io (pmm_clear_bit p s) = io s"
  by (simp_all add: pmm_set_bit_def pmm_clear_bit_def split_beta)

lemma free_set_count [simp]: "pmm_free_set (s\<lparr>pmm_free_page_count := n\<rparr>) = pmm_free_set s"
  by (rule free_set_cong) simp_all

lemma pmm_layout_count [simp]: "pmm_layout (s\<lparr>pmm_free_page_count := n\<rparr>) = pmm_layout s"
  by (simp add: pmm_layout_def)

lemma reserve_one:
  assumes "pmm_inv s" "unat p < 4096"
  shows "pmm_inv (pmm_reserve_one p s)" "pmm_free_set (pmm_reserve_one p s) = pmm_free_set s - {unat p}"
    "pmm_total_pages (pmm_reserve_one p s) = pmm_total_pages s" "pmm.more (pmm_reserve_one p s) = pmm.more s"
    "kout (pmm_reserve_one p s) = kout s"
    "page_no x \<noteq> 0x1020 \<Longrightarrow> mem (pmm_reserve_one p s) x = mem s x"
proof -
  note I = assms(1) [unfolded pmm_inv_def]
  have l: "pmm_layout s" using I by simp
  have test: "\<not> pmm_test_bit p s \<longleftrightarrow> unat p \<in> pmm_free_set s" by (rule bm.test_free [OF l])
  show "pmm_free_set (pmm_reserve_one p s) = pmm_free_set s - {unat p}"
    using test bm.free_set [OF l, of p] by (auto simp: pmm_reserve_one_def)
  show "pmm_total_pages (pmm_reserve_one p s) = pmm_total_pages s"
    "pmm.more (pmm_reserve_one p s) = pmm.more s" "kout (pmm_reserve_one p s) = kout s"
    by (simp_all add: pmm_reserve_one_def)
  show "page_no x \<noteq> 0x1020 \<Longrightarrow> mem (pmm_reserve_one p s) x = mem s x"
    using bitmap_only_mem [OF set_bit_only [OF l, of p]] by (simp add: pmm_reserve_one_def)
  show "pmm_inv (pmm_reserve_one p s)"
  proof (cases "unat p \<in> pmm_free_set s")
    case True
    then have "0 < card (pmm_free_set s)" by (auto simp: card_gt_0_iff)
    then have "unat (pmm_free_page_count s - 1) = card (pmm_free_set s) - 1"
      using I by (subst unat_sub_le) auto
    then show ?thesis using I True test bm.free_set [OF l, of p]
      by (simp add: pmm_reserve_one_def pmm_inv_def card_Diff_singleton)
  next
    case False
    then show ?thesis using assms(1) test by (simp add: pmm_reserve_one_def)
  qed
qed

lemma release_one:
  assumes "pmm_inv s" "unat p < 4096" "p \<noteq> 0"
  shows "pmm_inv (pmm_release_one p s)" "pmm_free_set (pmm_release_one p s) = insert (unat p) (pmm_free_set s)"
    "pmm_total_pages (pmm_release_one p s) = pmm_total_pages s" "pmm.more (pmm_release_one p s) = pmm.more s"
    "page_no x \<noteq> 0x1020 \<Longrightarrow> mem (pmm_release_one p s) x = mem s x"
proof -
  note I = assms(1) [unfolded pmm_inv_def]
  have l: "pmm_layout s" using I by simp
  have test: "\<not> pmm_test_bit p s \<longleftrightarrow> unat p \<in> pmm_free_set s" by (rule bm.test_free [OF l])
  have clear: "pmm_free_set (pmm_clear_bit p s) = insert (unat p) (pmm_free_set s)"
    using bm.free_clear [OF l, of p] assms(2) by auto
  show "pmm_free_set (pmm_release_one p s) = insert (unat p) (pmm_free_set s)"
    using test clear by (auto simp: pmm_release_one_def)
  show "pmm_total_pages (pmm_release_one p s) = pmm_total_pages s"
    "pmm.more (pmm_release_one p s) = pmm.more s"
    by (simp_all add: pmm_release_one_def)
  show "page_no x \<noteq> 0x1020 \<Longrightarrow> mem (pmm_release_one p s) x = mem s x"
    using bitmap_only_mem [OF clear_bit_only [OF l, of p]] by (simp add: pmm_release_one_def)
  show "pmm_inv (pmm_release_one p s)"
  proof (cases "unat p \<in> pmm_free_set s")
    case False
    have "unat p \<noteq> 0" using assms(3) by (simp add: unat_eq_zero)
    moreover have "unat (pmm_free_page_count s + 1) = card (pmm_free_set s) + 1"
      using I card_free_le [of s] by (subst unat_add_small) auto
    ultimately show ?thesis using I False test clear
      by (simp add: pmm_release_one_def pmm_inv_def)
  qed (use assms(1) test in \<open>simp add: pmm_release_one_def\<close>)
qed

section \<open>Ranges\<close>

lemma region_indices:
  assumes "j < min (region_count sz) (4096 - region_first start)" "0x1020000 \<le> start"
  shows "unat (start div 4096 - 0x1020 + of_nat j) = region_first start + j" "region_first start + j < 4096"
proof -
  show b: "region_first start + j < 4096" using assms(1) by linarith
  then show "unat (start div 4096 - 0x1020 + of_nat j) = region_first start + j"
    using unat_region_first [OF assms(2)] by (simp add: unat_add_small unat_of_nat_small)
qed

lemma reserve_region:
  assumes "pmm_inv s" "pmm_reserve_region start sz s = (r, s')"
  shows "r = PMM_SUCCESS" "pmm_inv s'"
    "pmm_free_set s' = (if 0x1020000 \<le> start then pmm_free_set s - region_pages start sz else pmm_free_set s)"
    "page_no x \<noteq> 0x1020 \<Longrightarrow> mem s' x = mem s x" "pmm.more s' = pmm.more s" "kout s' = kout s"
proof -
  note I = assms(1) [unfolded pmm_inv_def pmm_layout_def]
  show "r = PMM_SUCCESS" using assms(2) I by (auto simp: pmm_reserve_region_def Let_def split: if_splits)
  define n where "n = min (region_count sz) (4096 - region_first start)"
  define P where "P k t \<longleftrightarrow> pmm_inv t \<and> (\<forall>x. page_no x \<noteq> 0x1020 \<longrightarrow> mem t x = mem s x) \<and> pmm.more t = pmm.more s \<and>
    kout t = kout s \<and> pmm_free_set t = pmm_free_set s - {region_first start..<region_first start + k}" for k t
  have "P (if 0x1020000 \<le> start then n else 0) s'"
  proof (cases "0x1020000 \<le> start")
    case True
    have s': "s' = fold (\<lambda>j. pmm_reserve_one (start div 4096 - 0x1020 + of_nat j)) [0..<n] s"
      using assms(2) I True region_loop [OF True, of sz pmm_reserve_one s]
      by (simp add: pmm_reserve_region_def Let_def pmm_addr_to_page_def n_def add.commute [of 4095 sz])
    have "P n s'" unfolding s'
    proof (rule fold_upt_invariant [where P = P])
      show "P 0 s" using assms(1) by (simp add: P_def)
    next
      fix j t assume j: "j < n" and t: "P j t"
      note idx = region_indices [OF j [unfolded n_def] True]
      have "{region_first start..<region_first start + Suc j} =
          insert (region_first start + j) {region_first start..<region_first start + j}" by auto
      then show "P (Suc j) (pmm_reserve_one (start div 4096 - 0x1020 + of_nat j) t)"
        using t reserve_one [of t "start div 4096 - 0x1020 + of_nat j"] idx
        by (auto simp: P_def)
    qed
    with True show ?thesis by simp
  next
    case False
    then have "s' = s" using assms(2) I by (auto simp: pmm_reserve_region_def Let_def split: if_splits)
    with False assms(1) show ?thesis by (simp add: P_def)
  qed
  moreover have "{region_first start..<region_first start + n} = region_pages start sz"
    by (auto simp: n_def region_pages_def)
  ultimately show "pmm_inv s'"
    "pmm_free_set s' = (if 0x1020000 \<le> start then pmm_free_set s - region_pages start sz else pmm_free_set s)"
    "page_no x \<noteq> 0x1020 \<Longrightarrow> mem s' x = mem s x" "pmm.more s' = pmm.more s" "kout s' = kout s"
    by (auto simp: P_def split: if_splits)
qed

lemma mark_available:
  assumes "pmm_inv s" "pmm_mark_available start sz s = (r, s')" "start < 0x1020000 \<or> 0x1021000 \<le> start"
  shows "r = PMM_SUCCESS" "pmm_inv s'"
    "pmm_free_set s' = (if 0x1020000 \<le> start then pmm_free_set s \<union> region_pages start sz else pmm_free_set s)"
    "page_no x \<noteq> 0x1020 \<Longrightarrow> mem s' x = mem s x" "pmm.more s' = pmm.more s"
proof -
  note I = assms(1) [unfolded pmm_inv_def pmm_layout_def]
  show "r = PMM_SUCCESS" using assms(2) I by (auto simp: pmm_mark_available_def Let_def split: if_splits)
  define n where "n = min (region_count sz) (4096 - region_first start)"
  define P where "P k t \<longleftrightarrow> pmm_inv t \<and> (\<forall>x. page_no x \<noteq> 0x1020 \<longrightarrow> mem t x = mem s x) \<and> pmm.more t = pmm.more s \<and>
    pmm_free_set t = pmm_free_set s \<union> {region_first start..<region_first start + k}" for k t
  have "P (if 0x1020000 \<le> start then n else 0) s'"
  proof (cases "0x1020000 \<le> start")
    case True
    with assms(3) have "0x1021000 \<le> unat start" by (auto simp: word_le_nat_alt word_less_nat_alt)
    then have pos: "0 < region_first start" unfolding region_first_def by linarith
    have s': "s' = fold (\<lambda>j. pmm_release_one (start div 4096 - 0x1020 + of_nat j)) [0..<n] s"
      using assms(2) I True region_loop [OF True, of sz pmm_release_one s]
      by (simp add: pmm_mark_available_def Let_def pmm_addr_to_page_def n_def add.commute [of 4095 sz])
    have "P n s'" unfolding s'
    proof (rule fold_upt_invariant [where P = P])
      show "P 0 s" using assms(1) by (simp add: P_def)
    next
      fix j t assume j: "j < n" and t: "P j t"
      note idx = region_indices [OF j [unfolded n_def] True]
      have nz: "start div 4096 - 0x1020 + of_nat j \<noteq> 0" using idx(1) pos by (auto simp: unat_eq_zero [symmetric])
      have "{region_first start..<region_first start + Suc j} =
          insert (region_first start + j) {region_first start..<region_first start + j}" by auto
      then show "P (Suc j) (pmm_release_one (start div 4096 - 0x1020 + of_nat j) t)"
        using t release_one [of t "start div 4096 - 0x1020 + of_nat j"] idx nz
        by (auto simp: P_def)
    qed
    with True show ?thesis by simp
  next
    case False
    then have "s' = s" using assms(2) I by (auto simp: pmm_mark_available_def Let_def split: if_splits)
    with False assms(1) show ?thesis by (simp add: P_def)
  qed
  moreover have "{region_first start..<region_first start + n} = region_pages start sz"
    by (auto simp: n_def region_pages_def)
  ultimately show "pmm_inv s'"
    "pmm_free_set s' = (if 0x1020000 \<le> start then pmm_free_set s \<union> region_pages start sz else pmm_free_set s)"
    "page_no x \<noteq> 0x1020 \<Longrightarrow> mem s' x = mem s x" "pmm.more s' = pmm.more s"
    by (auto simp: P_def split: if_splits)
qed

end
