(* ===== verification/PMM_Live.thy ===== *)
theory PMM_Live
  imports PMM_Region
begin

text \<open>
  The physical memory manager under its clients: a step relation whose states carry, beside
  the manager's state, the blocks its clients hold. A client may allocate, release a block it
  holds, make a call that is refused, reserve any range, write anywhere but in the page of
  the bitmap, and print. The invariant is by rule induction.
\<close>

section \<open>Blocks held by clients\<close>

definition live_pages :: "(nat \<times> nat) list \<Rightarrow> nat list" where
  "live_pages live = concat (map (\<lambda>(sp, n). [sp..<sp + n]) live)"

lemma live_pages_simps [simp]:
  "live_pages [] = []" "live_pages ((sp, n) # live) = [sp..<sp + n] @ live_pages live"
  "live_pages (xs @ ys) = live_pages xs @ live_pages ys"
  by (simp_all add: live_pages_def)

definition live_inv :: "'a pmm_scheme \<Rightarrow> (nat \<times> nat) list \<Rightarrow> bool" where
  "live_inv s live \<longleftrightarrow> pmm_inv s \<and> distinct (live_pages live) \<and>
     set (live_pages live) \<subseteq> {1..<4096} - pmm_free_set s"

lemma live_inv_same:
  "live_inv s live \<Longrightarrow> pmm_inv s' \<Longrightarrow> pmm_free_set s' \<inter> set (live_pages live) = {} \<Longrightarrow> live_inv s' live"
  by (auto simp: live_inv_def)

lemma live_block:
  assumes "live_inv s live" "(sp, n) \<in> set live" "0 < n"
  shows "{sp..<sp + n} \<inter> pmm_free_set s = {}" "0 < sp" "sp + n \<le> 4096"
proof -
  have "{sp..<sp + n} \<subseteq> set (live_pages live)" using assms(2) by (auto simp: live_pages_def)
  then have sub: "{sp..<sp + n} \<subseteq> {1..<4096} - pmm_free_set s" using assms(1) by (auto simp: live_inv_def)
  then show "{sp..<sp + n} \<inter> pmm_free_set s = {}" by blast
  have "sp \<in> {sp..<sp + n}" "sp + n - 1 \<in> {sp..<sp + n}" using assms(3) by auto
  then have "sp \<in> {1..<4096}" "sp + n - 1 \<in> {1..<4096}" using sub by blast+
  then show "0 < sp" "sp + n \<le> 4096" by auto
qed

lemma free_none: "pmm_free_pages a n s = (r, s') \<Longrightarrow> r \<noteq> PMM_SUCCESS \<Longrightarrow> s' = s"
  by (auto simp: pmm_free_pages_def Let_def split: if_splits)

section \<open>Steps\<close>

inductive pmm_run :: "pmm \<Rightarrow> (nat \<times> nat) list \<Rightarrow> bool" where
  boot: "pmm_init (pmm_power_on m) = (r, s) \<Longrightarrow> pmm_run s []"
| alloc: "pmm_run s live \<Longrightarrow> pmm_alloc_pages n s = (p, s') \<Longrightarrow> p \<noteq> 0 \<Longrightarrow>
    pmm_run s' ((unat ((p - 0x1020000) div 4096), unat n) # live)"
| alloc_refused: "pmm_run s live \<Longrightarrow> pmm_alloc_pages n s = (0, s') \<Longrightarrow> pmm_run s' live"
| release: "pmm_run s (l1 @ (sp, n) # l2) \<Longrightarrow> pmm_free_pages (managed_addr sp) (of_nat n) s = (r, s') \<Longrightarrow>
    pmm_run s' (l1 @ l2)"
| release_refused: "pmm_run s live \<Longrightarrow> pmm_free_pages a n s = (r, s') \<Longrightarrow> r \<noteq> PMM_SUCCESS \<Longrightarrow> pmm_run s' live"
| reserve: "pmm_run s live \<Longrightarrow> pmm_reserve_region start sz s = (r, s') \<Longrightarrow> pmm_run s' live"
| available: "pmm_run s live \<Longrightarrow> pmm_mark_available start sz s = (r, s') \<Longrightarrow>
    start < 0x1020000 \<or> 0x1021000 \<le> start \<and> region_pages start sz \<inter> set (live_pages live) = {} \<Longrightarrow> pmm_run s' live"
| client_write: "pmm_run s live \<Longrightarrow> \<forall>x. page_no x = 0x1020 \<longrightarrow> m x = mem s x \<Longrightarrow> pmm_run (s\<lparr>mem := m\<rparr>) live"
| report: "pmm_run s live \<Longrightarrow> pmm_run (emit k s) live"

inductive_cases pmm_run_freshE: "pmm_run s []"

lemma live_alloc:
  assumes inv: "live_inv s live" and alloc: "pmm_alloc_pages n s = (p, s')" "p \<noteq> 0"
  shows "live_inv s' ((unat ((p - 0x1020000) div 4096), unat n) # live)"
proof -
  have pi: "pmm_inv s" using inv by (simp add: live_inv_def)
  from alloc_result [OF pi alloc] obtain sp where sp: "p = managed_addr sp" "0 < sp" "sp + unat n \<le> 4096"
      "0 < unat n" "{sp..<sp + unat n} \<subseteq> pmm_free_set s"
      "pmm_free_set s' = pmm_free_set s - {sp..<sp + unat n}" "pmm_inv s'" by metis
  have "unat ((p - 0x1020000) div 4096) = sp"
    using sp(1,3,4) by (simp add: page_of_managed unat_of_nat_small)
  then show ?thesis using sp inv by (auto simp: live_inv_def)
qed

lemma live_release:
  assumes inv: "live_inv s (l1 @ (sp, n) # l2)" and free: "pmm_free_pages (managed_addr sp) (of_nat n) s = (r, s')"
  shows "live_inv s' (l1 @ l2)"
proof (cases "n = 0")
  case True
  then have "s' = s" using free by (auto simp: pmm_free_pages_def split: if_splits)
  with True inv show ?thesis by (simp add: live_inv_def)
next
  case False
  note b = live_block [OF inv, of sp n]
  have pi: "pmm_inv s" using inv by (simp add: live_inv_def)
  have n: "unat (of_nat n :: u32) = n" "(of_nat n :: u32) \<noteq> 0"
    using b False by (simp_all add: unat_of_nat_small unat_eq_zero [symmetric])
  have "sp + unat (of_nat n :: u32) \<le> 4096" using b False by (simp only: n) simp
  note F = free_block_inv_iff [OF pi this n(2) free]
  have "pmm_inv s'" using F(3) b False by (simp only: n) simp
  moreover have "pmm_free_set s' = pmm_free_set s \<union> {sp..<sp + n}" using F(2) by (simp only: n)
  ultimately show ?thesis using inv by (auto simp: live_inv_def)
qed

lemma live_reserve:
  assumes "live_inv s live" "pmm_reserve_region start sz s = (r, s')"
  shows "live_inv s' live"
proof -
  have "pmm_inv s" using assms(1) by (simp add: live_inv_def)
  note R = reserve_region [OF this assms(2)]
  show ?thesis using assms(1) R(2,3) by (intro live_inv_same [OF assms(1)]) (auto simp: live_inv_def split: if_splits)
qed

lemma live_available:
  assumes "live_inv s live" "pmm_mark_available start sz s = (r, s')"
    "start < 0x1020000 \<or> 0x1021000 \<le> start \<and> region_pages start sz \<inter> set (live_pages live) = {}"
  shows "live_inv s' live"
proof -
  have "pmm_inv s" using assms(1) by (simp add: live_inv_def)
  moreover have c: "start < 0x1020000 \<or> 0x1021000 \<le> start" using assms(3) by blast
  ultimately have R: "pmm_inv s'" "pmm_free_set s' =
      (if 0x1020000 \<le> start then pmm_free_set s \<union> region_pages start sz else pmm_free_set s)"
    using mark_available(2,3) assms(2) by blast+
  have "start < 0x1020000 \<Longrightarrow> \<not> 0x1020000 \<le> start" by simp
  then show ?thesis using assms(1,3) R by (intro live_inv_same [OF assms(1)]) (auto simp: live_inv_def split: if_splits)
qed

lemma pmm_run_live_inv: "pmm_run s live \<Longrightarrow> live_inv s live"
proof (induction rule: pmm_run.induct)
  case (boot m r s)
  have "\<not> pmm_initialized (pmm_power_on m)" "length (pmm_regions (pmm_power_on m)) = 16"
    by (simp_all add: pmm_power_on_def)
  from pmm_init_state(2) [OF this boot] show ?case by (simp add: live_inv_def)
next
  case (alloc_refused s live n s')
  then have "s' = s" using alloc_null by (auto simp: live_inv_def)
  with alloc_refused show ?case by simp
next
  case (release_refused s live a n r s')
  then show ?case using free_none by metis
next
  case (client_write s live m)
  have i: "pmm_inv s" "pmm_layout s" using client_write.IH by (simp_all add: live_inv_def pmm_inv_def)
  have "pmm_inv (s\<lparr>mem := m\<rparr>)" by (rule pmm_inv_cong [OF i(1)]) (use client_write in simp_all)
  moreover have "pmm_free_set (s\<lparr>mem := m\<rparr>) = pmm_free_set s"
    by (rule free_set_page_cong [OF i(2)]) (use client_write in simp_all)
  ultimately show ?case using client_write.IH by (simp add: live_inv_def)
next
  case (report s live k)
  have "pmm_inv s" using report.IH by (simp add: live_inv_def)
  then have "pmm_inv (emit k s)" by (rule pmm_inv_cong) simp_all
  moreover have "pmm_free_set (emit k s) = pmm_free_set s" by (rule free_set_cong) simp_all
  ultimately show ?case using report.IH by (simp add: live_inv_def)
next
  case (alloc s live n p s')
  show ?case by (rule live_alloc [OF alloc.IH alloc.hyps(2,3)])
next
  case (release s l1 sp n l2 r s')
  show ?case by (rule live_release [OF release.IH release.hyps(2)])
next
  case (reserve s live start sz r s')
  show ?case by (rule live_reserve [OF reserve.IH reserve.hyps(2)])
next
  case (available s live start sz r s')
  show ?case by (rule live_available [OF available.IH available.hyps(2,3)])
qed

text \<open>The bytes of a block a client holds.\<close>

lemma in_block_pages:
  assumes "sp + n \<le> 4096"
  shows "in_range (managed_addr sp) (4096 * n) x \<longleftrightarrow> 0x1020 + sp \<le> unat (page_no x) \<and> unat (page_no x) < 0x1020 + sp + n"
proof -
  have "unat (managed_addr sp) + 4096 * n \<le> 4294967296" using assms by (simp add: unat_managed_addr)
  then show ?thesis using in_range_pages [OF page_aligned_managed_addr, of sp n x] assms
    by (simp add: page_no_managed_addr)
qed

lemma live_blocks_disjoint:
  assumes "live_inv s (l1 @ (sp, n) # l2)" "(sp', n') \<in> set (l1 @ l2)"
  shows "{sp..<sp + n} \<inter> {sp'..<sp' + n'} = {}"
proof -
  have "set (live_pages (l1 @ l2)) \<inter> {sp..<sp + n} = {}" using assms(1) by (auto simp: live_inv_def)
  moreover have "{sp'..<sp' + n'} \<subseteq> set (live_pages (l1 @ l2))"
    using assms(2) by (force simp: live_pages_def)
  ultimately show ?thesis by blast
qed

end
