(* ===== verification/PMM_Report.thy ===== *)
theory PMM_Report
  imports PMM_Live
begin

text \<open>
  What the manager prints: every operation only asks the console for output whose format and
  arguments fit, and the reports do not change the manager. What the queries answer.
\<close>

section \<open>Output\<close>

lemma says_bits [simp]: "says s (pmm_set_bit p s)" "says s (pmm_clear_bit p s)"
  by (rule says_same; simp)+

lemma says_free_one: "says s (pmm_free_one addr sp i s)"
proof -
  have "says s (if \<not> pmm_test_bit (sp + i) s
    then printk ''PMM: Warning - freeing already free page at 0x%x\<newline>'' [KInt (addr + i * 4096)] s else s)"
    by (auto intro!: says_emit simp: call_simps)
  then show ?thesis unfolding pmm_free_one_def Let_def by (rule says_keep) simp
qed

lemma says_pmm_free_pages: "says s (snd (pmm_free_pages a n s))"
  by (auto simp: pmm_free_pages_def Let_def intro!: says_keep [OF says_for_lt [OF says_free_one]])

lemma says_pmm_init_report: "says s (pmm_init_report s)"
  unfolding pmm_init_report_def Let_def by (intro says_emit says_refl) (simp_all add: call_simps)

lemma says_pmm_print_stats: "says s (pmm_print_stats s)"
proof (cases "pmm_initialized s")
  case True
  then show ?thesis unfolding pmm_print_stats_def Let_def
    by (simp only: not_True_eq_False if_False) (intro says_emit says_refl; simp add: call_simps)
next
  case False
  then show ?thesis unfolding pmm_print_stats_def
    by (simp only: not_False_eq_True if_True) (intro says_emit says_refl; simp add: call_simps)
qed

lemma says_pmm_print_memory_map: "says s (pmm_print_memory_map s)"
proof -
  have fmt: "kcall_ok (KPrintf ''  0x%08x - 0x%08x (%u KB) %s\<newline>'' [KInt a, KInt b, KInt c, KStr d])" for a b c d
    by (simp add: call_simps parse_padding_def is_digit_def)
  have "says t (printk ''  0x%08x - 0x%08x (%u KB) %s\<newline>'' [KInt a, KInt b, KInt c, KStr d] t)" for a b c d t
    by (rule says_emit [OF says_refl fmt])
  then have body: "says (printk ''PMM Memory Map:\<newline>'' [] s) (pmm_print_memory_map s)"
    unfolding pmm_print_memory_map_def Let_def by (rule says_for_lt)
  have "says s (printk ''PMM Memory Map:\<newline>'' [] s)"
    by (intro says_emit says_refl) (simp add: call_simps)
  then show ?thesis by (rule says_trans [OF _ body])
qed

lemma says_pmm_dump_bitmap: "says s (pmm_dump_bitmap start n s)"
proof -
  have row: "kcall_ok (KPrintf ''\<newline>%04u: '' [KInt a])" for a
    by (simp add: call_simps parse_padding_def is_digit_def)
  have cell: "kcall_ok (KPrintf ''%c'' [KInt a])" for a by (simp add: call_simps)
  have "says t (let t = (if i mod 32 = 0 then printk ''\<newline>%04u: '' [KInt (start + i)] t else t)
      in printk ''%c'' [KInt (if pmm_test_bit (start + i) t then 88 else 46)] t)" for i and t :: "'a pmm_scheme"
    unfolding Let_def by (auto intro!: says_emit row cell simp del: kcall_ok.simps)
  note body = says_for_guard [where f = "\<lambda>i t. let t = (if i mod 32 = 0 then printk ''\<newline>%04u: '' [KInt (start + i)] t else t)
      in printk ''%c'' [KInt (if pmm_test_bit (start + i) t then 88 else 46)] t", OF this]
  have h: "kcall_ok (KPrintf ''PMM Bitmap dump (pages %u-%u):\<newline>'' [KInt a, KInt b])"
    "kcall_ok (KPrintf ''PMM: Not initialized\<newline>'' [])" "kcall_ok (KPrintf ''\<newline>'' [])" for a b
    by (simp_all add: call_simps)
  show ?thesis unfolding pmm_dump_bitmap_def Let_def
    by (auto intro!: says_emit h says_trans [OF says_emit [OF says_refl h(1)] body [unfolded Let_def]] simp del: kcall_ok.simps)
qed

lemma kout_pmm_add_region [simp]: "kout (snd (pmm_add_region a n ty s)) = kout s"
  by (simp add: pmm_add_region_def)

lemma says_mark_region: "says s (pmm_mark_region r s)"
  by (simp add: pmm_mark_region_def Let_def says_for_guard)

lemma says_pmm_init: "says s (snd (pmm_init s))"
proof -
  have "says s (printk ''PMM: Initializing Physical Memory Manager...\<newline>'' [] s)" (is "says s ?s0")
    by (intro says_emit says_refl) (simp add: call_simps)
  moreover have "says ?s0 (pmm_init_bitmap ?s0)"
    unfolding pmm_init_bitmap_def Let_def
    by (rule says_trans [OF says_same says_for_lt [OF says_same]]) simp_all
  ultimately have "says s (pmm_init_bitmap ?s0)" by (rule says_trans)
  then have "says s (pmm_init_regions (pmm_init_bitmap ?s0))"
    by (rule says_keep) (simp add: pmm_init_regions_def Let_def)
  moreover have "says t (pmm_init_mark t)" for t :: "'a pmm_scheme"
    unfolding pmm_init_mark_def by (rule says_for_lt) (rule says_mark_region)
  ultimately have "says s (pmm_init_mark (pmm_init_regions (pmm_init_bitmap ?s0)))" (is "says s ?s3")
    by (rule says_trans)
  then have "says s (?s3\<lparr>pmm_free_page_count := pmm_count_free ?s3, pmm_last_allocated := 0, pmm_initialized := True\<rparr>)"
    by (rule says_keep) simp
  from says_trans [OF this says_pmm_init_report] show ?thesis by (simp add: pmm_init_def Let_def)
qed

lemma says_reserve_one: "says s (pmm_reserve_one p s)" "says s (pmm_release_one p s)"
  by (auto simp: pmm_reserve_one_def pmm_release_one_def intro!: says_same)

lemma says_ranges: "says s (snd (pmm_reserve_region a n s))" "says s (snd (pmm_mark_available a n s))"
  by (auto simp: pmm_reserve_region_def pmm_mark_available_def Let_def intro!: says_for_guard says_reserve_one)

lemma says_pmm_alloc_pages: "says s (snd (pmm_alloc_pages n s))"
  by (auto simp: pmm_alloc_pages_def Let_def intro!: says_keep [OF says_for_lt [OF says_bits(1)]])

end
