(* ===== verification/PMM_Props.thy ===== *)
theory PMM_Props
  imports PMM_Report
begin

text \<open>
  The properties of the physical memory manager. The witnesses run the manager from power on.
\<close>

definition pmm_booted :: pmm where
  "pmm_booted = snd (pmm_init (pmm_power_on (\<lambda>_. 0)))"

lemma booted_facts:
  "pmm_inv pmm_booted" "pmm_free_set pmm_booted = {1..<4096}" "pmm_last_allocated pmm_booted = 0"
proof -
  have p: "\<not> pmm_initialized (pmm_power_on (\<lambda>_. 0))" "length (pmm_regions (pmm_power_on (\<lambda>_. 0))) = 16"
    by (simp_all add: pmm_power_on_def)
  have e: "pmm_init (pmm_power_on (\<lambda>_. 0)) = (fst (pmm_init (pmm_power_on (\<lambda>_. 0))), pmm_booted)"
    by (simp add: pmm_booted_def)
  show "pmm_inv pmm_booted" "pmm_free_set pmm_booted = {1..<4096}" "pmm_last_allocated pmm_booted = 0"
    by (rule pmm_init_state [OF p e])+
qed

lemma alloc_addr: "fst (pmm_alloc_pages n s) \<noteq> 0 \<Longrightarrow>
    fst (pmm_alloc_pages n s) = managed_addr (unat (pmm_find_free_pages n s)) \<and> n \<noteq> 0 \<and>
    pmm_find_free_pages n s \<noteq> 0xFFFFFFFF"
  by (auto simp: pmm_alloc_pages_def Let_def managed_addr_def split: if_splits)

lemma alloc_exact:
  assumes "pmm_inv s"
  shows "fst (pmm_alloc_pages n s) \<noteq> 0 \<longleftrightarrow> n \<noteq> 0 \<and> (\<exists>a. {a..<a + unat n} \<subseteq> pmm_free_set s \<and>
    (unat (pmm_last_allocated s) \<le> a \<or> a + unat n \<le> unat (pmm_last_allocated s)))" (is "?l \<longleftrightarrow> ?r")
proof
  assume ?l
  then have "n \<noteq> 0" "pmm_find_free_pages n s \<noteq> 0xFFFFFFFF" using alloc_addr by blast+
  then show ?r using find_sound(2) [OF assms] find_no_straddle [OF assms] by blast
next
  assume ?r
  then show ?l using alloc_available [OF assms] by blast
qed

lemma booted_alloc:
  assumes "n \<noteq> 0" "unat n \<le> 4095"
  shows "fst (pmm_alloc_pages n pmm_booted) = managed_addr 1"
proof -
  have w: "{1..<1 + unat n} \<subseteq> pmm_free_set pmm_booted" using assms(2) by (auto simp: booted_facts)
  have "fst (pmm_alloc_pages n pmm_booted) \<noteq> 0"
    using alloc_available [OF booted_facts(1) assms(1) w] by (simp add: booted_facts)
  then have a: "fst (pmm_alloc_pages n pmm_booted) = managed_addr (unat (pmm_find_free_pages n pmm_booted))"
    and f: "pmm_find_free_pages n pmm_booted \<noteq> 0xFFFFFFFF" using alloc_addr by blast+
  have "unat (pmm_find_free_pages n pmm_booted) \<le> 1"
    using find_earliest(2) [OF booted_facts(1) assms(1) f w] by (simp add: booted_facts)
  moreover have "unat (pmm_find_free_pages n pmm_booted) \<in> pmm_free_set pmm_booted"
    using find_sound(2) [OF booted_facts(1) assms(1) f] assms(1) by (auto simp: unat_gt_0)
  ultimately have "unat (pmm_find_free_pages n pmm_booted) = 1" by (simp add: booted_facts)
  with a show ?thesis by simp
qed

section \<open>Initialisation and allocation\<close>

text \<open>C14: \<open>pmm_init\<close> succeeds from power on with any memory contents, establishes the
  invariant with every page but the bitmap's own one free and the four regions recorded,
  writes only the bitmap's page, and a second call changes nothing.\<close>
theorem pmm_init_establishes:
  "let (r, s) = pmm_init (pmm_power_on m) in
     r = PMM_SUCCESS \<and> pmm_inv s \<and> pmm_free_set s = {1..<4096} \<and>
     take 4 (pmm_regions s) = init_regions \<and> pmm_region_count s = 4 \<and>
     (\<forall>x. page_no x = 0x1020 \<or> mem s x = m x) \<and> pmm_init s = (PMM_SUCCESS, s)"
proof -
  have p: "\<not> pmm_initialized (pmm_power_on m)" "length (pmm_regions (pmm_power_on m)) = 16"
    by (simp_all add: pmm_power_on_def)
  obtain r s where e: "pmm_init (pmm_power_on m) = (r, s)" by (cases "pmm_init (pmm_power_on m)")
  note I = pmm_init_state [OF p e]
  have "\<forall>x. page_no x = 0x1020 \<or> mem s x = m x" using I(7) by (auto simp: pmm_power_on_def)
  moreover have "pmm_init s = (PMM_SUCCESS, s)" using I(2) by (simp add: pmm_init_def pmm_inv_def)
  ultimately show ?thesis using I by (simp add: e)
qed

text \<open>C6: an allocation that returns a block returns one that was free: inside the managed
  range, never the bitmap's page; exactly its pages leave the free set, every byte of it
  reads zero, no byte outside it and the bitmap's page changes, and the invariant is kept.\<close>
theorem pmm_alloc_sound:
  assumes "pmm_inv s" "pmm_alloc_pages n s = (p, s')" "p \<noteq> NULL"
  shows "\<exists>sp. p = managed_addr sp \<and> 0 < sp \<and> sp + unat n \<le> 4096 \<and> 0 < n \<and>
     {sp..<sp + unat n} \<subseteq> pmm_free_set s \<and> pmm_free_set s' = pmm_free_set s - {sp..<sp + unat n} \<and>
     pmm_inv s' \<and> (\<forall>x. in_range p (4096 * unat n) x \<longrightarrow> mem s' x = 0) \<and>
     (\<forall>x. \<not> in_range p (4096 * unat n) x \<and> page_no x \<noteq> 0x1020 \<longrightarrow> mem s' x = mem s x)"
  using assms(1,2,3)
proof (rule alloc_result)
  fix sp
  assume "p = managed_addr sp" "0 < sp" "sp + unat n \<le> 4096" "0 < unat n"
    "{sp..<sp + unat n} \<subseteq> pmm_free_set s" "pmm_free_set s' = pmm_free_set s - {sp..<sp + unat n}" "pmm_inv s'"
    "\<forall>x. in_range p (4096 * unat n) x \<longrightarrow> mem s' x = 0"
    "\<forall>x. \<not> in_range p (4096 * unat n) x \<and> page_no x \<noteq> 0x1020 \<longrightarrow> mem s' x = mem s x"
  then show ?thesis by (intro exI [of _ sp]) (simp add: unat_gt_0 word_neq_0_conv)
qed

theorem pmm_alloc_sound_witness:
  "pmm_inv pmm_booted \<and> fst (pmm_alloc_pages 3 pmm_booted) \<noteq> NULL \<and>
   (\<exists>sp. fst (pmm_alloc_pages 3 pmm_booted) = managed_addr sp \<and> 0 < sp \<and> sp + 3 \<le> 4096)"
proof -
  have nn: "fst (pmm_alloc_pages 3 pmm_booted) \<noteq> 0" by (simp add: booted_alloc managed_addr_nonnull)
  obtain p s' where e: "pmm_alloc_pages 3 pmm_booted = (p, s')" by fastforce
  with nn have "p \<noteq> 0" by simp
  from pmm_alloc_sound [OF booted_facts(1) e this] show ?thesis using nn booted_facts(1) e by auto
qed

text \<open>C11: exactly when \<open>pmm_alloc_pages\<close> returns a block: the request is not empty and some
  run of that many free pages lies entirely before or entirely from the next-fit position.\<close>
theorem pmm_alloc_succeeds_iff:
  assumes "pmm_inv s"
  shows "fst (pmm_alloc_pages n s) \<noteq> NULL \<longleftrightarrow> n \<noteq> 0 \<and> (\<exists>a. {a..<a + unat n} \<subseteq> pmm_free_set s \<and>
    (unat (pmm_last_allocated s) \<le> a \<or> a + unat n \<le> unat (pmm_last_allocated s)))"
  by (rule alloc_exact [OF assms])

theorem pmm_alloc_succeeds_iff_witness:
  "pmm_inv pmm_booted \<and> fst (pmm_alloc_pages 4095 pmm_booted) \<noteq> NULL \<and> fst (pmm_alloc_pages 4096 pmm_booted) = NULL"
proof -
  note A = pmm_alloc_succeeds_iff [OF booted_facts(1)]
  have "\<not> {a..<a + 4096} \<subseteq> {1..<4096}" for a :: nat
    using atLeastLessThan_subset_iff [of a "a + 4096" 1 4096] by auto
  then have "fst (pmm_alloc_pages 4096 pmm_booted) = 0" using A [of 4096] by (simp add: booted_facts)
  moreover have "fst (pmm_alloc_pages 4095 pmm_booted) \<noteq> 0"
    unfolding A by (auto simp: booted_facts intro!: exI [of _ 1])
  ultimately show ?thesis using booted_facts(1) by simp
qed

text \<open>\<open>pmm_alloc_page\<close> fails exactly when no page is free, and a refused request of any
  size leaves the whole state as it was.\<close>
theorem pmm_alloc_refusal:
  assumes "pmm_inv s"
  shows "(fst (pmm_alloc_page s) = NULL \<longleftrightarrow> pmm_free_set s = {}) \<and>
    (fst (pmm_alloc_pages n s) = NULL \<longrightarrow> snd (pmm_alloc_pages n s) = s)"
proof
  have "a \<in> pmm_free_set s \<Longrightarrow> {a..<a + unat (1 :: u32)} \<subseteq> pmm_free_set s \<and>
      (unat (pmm_last_allocated s) \<le> a \<or> a + unat (1 :: u32) \<le> unat (pmm_last_allocated s))" for a
    by auto
  moreover have "{a..<a + unat (1 :: u32)} \<subseteq> pmm_free_set s \<Longrightarrow> a \<in> pmm_free_set s" for a by auto
  ultimately show "fst (pmm_alloc_page s) = NULL \<longleftrightarrow> pmm_free_set s = {}"
    using alloc_exact [OF assms, of 1] unfolding pmm_alloc_page_def by (auto simp del: unat_1)
  show "fst (pmm_alloc_pages n s) = NULL \<longrightarrow> snd (pmm_alloc_pages n s) = s"
    using alloc_null [OF _ assms] by (metis prod.collapse)
qed

theorem pmm_alloc_refusal_witness:
  "pmm_inv pmm_booted \<and> fst (pmm_alloc_page pmm_booted) \<noteq> NULL \<and> snd (pmm_alloc_pages 0 pmm_booted) = pmm_booted"
proof -
  note R = pmm_alloc_refusal [OF booted_facts(1), of 0]
  have "fst (pmm_alloc_pages 0 pmm_booted) = 0" by (simp add: pmm_alloc_pages_def)
  moreover have "pmm_free_set pmm_booted \<noteq> {}" by (simp add: booted_facts)
  ultimately show ?thesis using R booted_facts(1) by simp
qed

text \<open>
  The next-fit position can hide a block: after 2047 pages are allocated and released, every
  page is free again, yet no request of more than 2048 pages succeeds.
\<close>

definition pmm_after_release :: pmm where
  "pmm_after_release =
     (let (p, s) = pmm_alloc_pages 2047 pmm_booted in snd (pmm_free_pages p 2047 s))"

lemma after_release_facts:
  "pmm_inv pmm_after_release" "pmm_free_set pmm_after_release = {1..<4096}"
  "unat (pmm_last_allocated pmm_after_release) = 2048"
proof -
  obtain p s where a: "pmm_alloc_pages 2047 pmm_booted = (p, s)" by fastforce
  then have p: "p = managed_addr 1" using booted_alloc [of 2047] by simp
  then have "p \<noteq> 0" by (simp add: managed_addr_nonnull)
  from alloc_result [OF booted_facts(1) a this] obtain sp where sp: "p = managed_addr sp" "sp + unat (2047 :: u32) \<le> 4096"
      "pmm_free_set s = {1..<4096} - {sp..<sp + unat (2047 :: u32)}" "pmm_inv s"
    unfolding booted_facts by metis
  have "sp = 1" using sp(1,2) p unat_managed_addr [of sp] unat_managed_addr [of 1] by simp
  with sp have f: "pmm_free_set s = {1..<4096} - {1..<2048}" by simp
  have l: "pmm_last_allocated s = (pmm_find_free_pages 2047 pmm_booted + 2047) mod 4096"
  proof -
    have "pmm_inv pmm_booted" by (rule booted_facts)
    then have "pmm_total_pages pmm_booted = 4096" "pmm_layout pmm_booted" by (simp_all add: pmm_inv_def pmm_layout_def)
    then show ?thesis using a \<open>p \<noteq> 0\<close> bitmap_only_fields(3) [OF bitmap_only_for_lt, of pmm_booted]
      by (auto simp: pmm_alloc_pages_def Let_def set_bit_only split: if_splits)
  qed
  have fp: "unat (pmm_find_free_pages 2047 pmm_booted) = 1"
    using alloc_addr [of 2047 pmm_booted] a p \<open>p \<noteq> 0\<close> find_sound(1) [OF booted_facts(1), of 2047]
      unat_managed_addr [of "unat (pmm_find_free_pages 2047 pmm_booted)"] unat_managed_addr [of 1] by simp
  have "pmm_find_free_pages 2047 pmm_booted = 1" using fp by (intro word_eq_unatI) simp
  then have last: "unat (pmm_last_allocated s) = 2048" unfolding l by simp
  obtain r t where t: "pmm_free_pages (managed_addr 1) 2047 s = (r, t)" by fastforce
  have e: "pmm_after_release = t" using a t by (simp add: pmm_after_release_def p)
  note F = free_block_inv_iff [OF sp(4) _ _ t]
  show "pmm_inv pmm_after_release" using F(3) f by (auto simp: e)
  show "pmm_free_set pmm_after_release = {1..<4096}" using F(2) f by (auto simp: e)
  have I: "pmm_initialized s" "pmm_layout s" using sp(4) by (simp_all add: pmm_inv_def)
  show "unat (pmm_last_allocated pmm_after_release) = 2048"
    using free_accepts(5) [OF I, of 1 2047] t last by (simp add: e)
qed


section \<open>Release\<close>

text \<open>C20: the refusals of \<open>pmm_free_pages\<close> in the order of its checks: before
  initialisation, a null pointer or an empty count, an unaligned address, an address outside
  the managed range, a block that ends past it. None of them changes the state.\<close>
theorem pmm_free_pages_errors:
  "pmm_free_pages addr n s =
     (if pmm_initialized s \<and> addr \<noteq> NULL \<and> n \<noteq> 0 then
        (if \<not> page_aligned addr then (PMM_ERROR_ALIGNED, s)
         else if \<not> (\<exists>sp<4096. addr = managed_addr sp) then (PMM_ERROR_INVALID, s)
         else if (addr - PMM_MANAGED_START) div 4096 + n > pmm_total_pages s then (PMM_ERROR_INVALID, s)
         else (PMM_SUCCESS, snd (pmm_free_pages addr n s)))
      else (PMM_ERROR_INVALID, s))"
proof -
  have al: "addr AND 4095 = 0 \<longleftrightarrow> page_aligned addr"
    by (simp add: aligned_def take_bit_eq_mask mask_eq_exp_minus_1)
  have rng: "(\<exists>sp<4096. addr = managed_addr sp) \<longleftrightarrow> \<not> (addr < 0x1020000 \<or> 0x2020000 \<le> addr)" if "page_aligned addr"
  proof
    assume "\<exists>sp<4096. addr = managed_addr sp"
    then show "\<not> (addr < 0x1020000 \<or> 0x2020000 \<le> addr)"
      by (auto simp: word_less_nat_alt word_le_nat_alt unat_managed_addr)
  next
    assume r: "\<not> (addr < 0x1020000 \<or> 0x2020000 \<le> addr)"
    have "2 ^ 12 dvd unat addr" using that by (simp only: aligned_dvd)
    then obtain q where q: "unat addr = 4096 * q" by (auto elim: dvdE)
    with r have "0x1020 \<le> q" "q < 0x2020" by (auto simp: word_less_nat_alt word_le_nat_alt)
    then have "addr = managed_addr (q - 0x1020)" "q - 0x1020 < 4096"
      using q by (auto intro!: word_eq_unatI simp: unat_managed_addr)
    then show "\<exists>sp<4096. addr = managed_addr sp" by blast
  qed
  show ?thesis unfolding pmm_free_pages_def using al rng by (auto simp: Let_def)
qed

text \<open>C29: releasing a block inside the managed range always reports success and adds its
  pages to the free set; the invariant (the count of free pages is the number of clear bits,
  the bitmap's page is in use) survives exactly when every page of the block was in use and
  the block is not the bitmap's own page: a double release is reported on the console only.\<close>
theorem pmm_free_pages_block:
  assumes "pmm_inv s" "sp + unat n \<le> 4096" "n \<noteq> 0" "pmm_free_pages (managed_addr sp) n s = (r, s')"
  shows "r = PMM_SUCCESS \<and> pmm_free_set s' = pmm_free_set s \<union> {sp..<sp + unat n} \<and>
    (pmm_inv s' \<longleftrightarrow> 0 < sp \<and> {sp..<sp + unat n} \<inter> pmm_free_set s = {}) \<and>
    (\<forall>x. page_no x \<noteq> 0x1020 \<longrightarrow> mem s' x = mem s x)"
  using free_block_inv_iff [OF assms] by blast

theorem pmm_free_pages_block_witness:
  "pmm_inv pmm_booted \<and> fst (pmm_free_pages (managed_addr 7) 1 pmm_booted) = PMM_SUCCESS \<and>
   \<not> pmm_inv (snd (pmm_free_pages (managed_addr 7) 1 pmm_booted))"
proof -
  obtain r s' where e: "pmm_free_pages (managed_addr 7) 1 pmm_booted = (r, s')" by fastforce
  show ?thesis using pmm_free_pages_block [OF booted_facts(1) _ _ e] booted_facts by (auto simp: e)
qed

text \<open>C30: the bounds check of \<open>pmm_free_pages\<close> wraps: releasing \<open>2^32 - sp\<close> pages from page
  \<open>sp\<close> is accepted, makes every page from \<open>sp\<close> to the end free whoever holds it, and lowers
  the count of free pages by \<open>sp\<close>; the invariant never survives.\<close>
theorem pmm_free_pages_wraps:
  assumes "pmm_inv s" "0 < sp" "sp < 4096" "pmm_free_pages (managed_addr sp) (- of_nat sp) s = (r, s')"
  shows "r = PMM_SUCCESS \<and> pmm_free_set s' = pmm_free_set s \<union> {sp..<4096} \<and>
    pmm_free_page_count s' = pmm_free_page_count s - of_nat sp \<and> \<not> pmm_inv s'"
proof -
  have I: "pmm_initialized s" "pmm_layout s" using assms(1) by (simp_all add: pmm_inv_def)
  have nz: "(- of_nat sp :: u32) \<noteq> 0"
    using assms(2,3) of_nat_inj32 [of sp 0] by simp
  have u: "unat (- of_nat sp :: u32) = 4294967296 - sp"
  proof -
    have "(- of_nat sp :: u32) = of_nat (4294967296 - sp)" using assms(3) by (simp add: of_nat_diff)
    then show ?thesis using assms(2,3) by (simp only: unat_of_nat_small)
  qed
  have sum: "of_nat sp + - of_nat sp \<le> (4096 :: u32)" "sp + unat (- of_nat sp :: u32) \<le> 4294967296"
    unfolding u using assms(3) by simp_all
  note F = free_accepts [OF I assms(3) nz sum assms(4)]
  have "{p. sp \<le> p \<and> p < sp + unat (- of_nat sp :: u32) \<and> p < 4096} = {sp..<4096}"
    unfolding u using assms(3) by auto
  with F(3) have f: "pmm_free_set s' = pmm_free_set s \<union> {sp..<4096}" by (simp only:)
  have c: "pmm_free_page_count s' = pmm_free_page_count s - of_nat sp" using F(4) by simp
  have "\<not> pmm_inv s'"
  proof
    assume "pmm_inv s'"
    then have "unat (pmm_free_page_count s - of_nat sp) = card (pmm_free_set s')" using c by (simp add: pmm_inv_def)
    moreover have "card (pmm_free_set s) \<le> card (pmm_free_set s')" using f by (intro card_mono) auto
    moreover have "unat (pmm_free_page_count s) = card (pmm_free_set s)" using assms(1) by (simp add: pmm_inv_def)
    ultimately have ge: "unat (pmm_free_page_count s) \<le> unat (pmm_free_page_count s - of_nat sp)" by simp
    show False
    proof (cases "sp \<le> unat (pmm_free_page_count s)")
      case True
      then have "unat (pmm_free_page_count s - of_nat sp) = unat (pmm_free_page_count s) - sp"
        using assms(3) by (subst unat_sub_le) (simp_all add: unat_of_nat_small)
      with ge True assms(2) show False by simp
    next
      case False
      then have "unat (pmm_free_page_count s - of_nat sp) = 4294967296 - sp + unat (pmm_free_page_count s)"
        using u assms(3) unat_add_small [of "pmm_free_page_count s" "- of_nat sp"] by simp
      then have "4096 < card (pmm_free_set s')"
        using \<open>unat (pmm_free_page_count s - of_nat sp) = card (pmm_free_set s')\<close> assms(3) by simp
      with card_free_le [of s'] show False by simp
    qed
  qed
  with F(1) f c show ?thesis by blast
qed

theorem pmm_free_pages_wraps_witness:
  "fst (pmm_free_pages (managed_addr 16) (- 16) pmm_booted) = PMM_SUCCESS \<and>
   \<not> pmm_inv (snd (pmm_free_pages (managed_addr 16) (- 16) pmm_booted))"
proof -
  obtain r s' where e: "pmm_free_pages (managed_addr 16) (- 16) pmm_booted = (r, s')" by fastforce
  then show ?thesis using pmm_free_pages_wraps [OF booted_facts(1), of 16 r s'] by simp
qed

text \<open>C15: releasing a block that was just allocated succeeds and restores the set and the count
  of free pages and the invariant.\<close>
theorem pmm_alloc_free_roundtrip:
  assumes "pmm_inv s" "pmm_alloc_pages n s = (p, s1)" "p \<noteq> NULL" "pmm_free_pages p n s1 = (r, s2)"
  shows "r = PMM_SUCCESS \<and> pmm_inv s2 \<and> pmm_free_set s2 = pmm_free_set s \<and>
    pmm_free_page_count s2 = pmm_free_page_count s"
  using assms(1,2,3)
proof (rule alloc_result)
  fix sp assume sp: "p = managed_addr sp" "0 < sp" "sp + unat n \<le> 4096" "0 < unat n"
    "{sp..<sp + unat n} \<subseteq> pmm_free_set s" "pmm_free_set s1 = pmm_free_set s - {sp..<sp + unat n}" "pmm_inv s1"
  have "n \<noteq> 0" using sp(4) by auto
  note F = free_block_inv_iff [OF sp(7,3) this assms(4) [unfolded sp(1)]]
  have inv: "pmm_inv s2" using F(3) sp by blast
  have set: "pmm_free_set s2 = pmm_free_set s" using F(2) sp by auto
  then have "pmm_free_page_count s2 = pmm_free_page_count s"
    using inv assms(1) by (intro word_eq_unatI) (simp add: pmm_inv_def)
  with F(1) inv set show ?thesis by blast
qed

theorem pmm_alloc_free_roundtrip_witness:
  "pmm_free_set (snd (pmm_free_pages (managed_addr 1) 5 (snd (pmm_alloc_pages 5 pmm_booted)))) = {1..<4096}"
proof -
  have p: "fst (pmm_alloc_pages 5 pmm_booted) = managed_addr 1" by (rule booted_alloc) simp_all
  then have "pmm_alloc_pages 5 pmm_booted = (managed_addr 1, snd (pmm_alloc_pages 5 pmm_booted))"
    by (metis prod.collapse)
  from pmm_alloc_free_roundtrip [OF booted_facts(1) this _ prod.collapse [symmetric]]
  show ?thesis by (simp add: managed_addr_nonnull booted_facts)
qed

section \<open>Clients\<close>

text \<open>C4: in every reachable state of the manager and its clients, where clients release only
  blocks they hold, write anywhere but in the bitmap's page and mark no block in use as
  available, the manager's invariant holds and no two blocks held, and no block held and a
  free page, overlap.\<close>
theorem pmm_live_blocks_disjoint:
  assumes "pmm_run s live"
  shows "pmm_inv s \<and> distinct (live_pages live) \<and> set (live_pages live) \<subseteq> {1..<4096} - pmm_free_set s"
  using pmm_run_live_inv [OF assms] by (simp add: live_inv_def)

lemma run_booted: "pmm_run pmm_booted []"
  unfolding pmm_booted_def by (rule pmm_run.boot [OF prod.collapse [symmetric]])

lemma run_booted_alloc: "pmm_run (snd (pmm_alloc_pages 4 pmm_booted)) [(1, 4)]"
proof -
  have p: "fst (pmm_alloc_pages 4 pmm_booted) = managed_addr 1" by (rule booted_alloc) simp_all
  then have "pmm_alloc_pages 4 pmm_booted = (managed_addr 1, snd (pmm_alloc_pages 4 pmm_booted))"
    by (metis prod.collapse)
  from pmm_run.alloc [OF run_booted this managed_addr_nonnull] show ?thesis by (simp add: managed_addr_def)
qed

theorem pmm_live_blocks_disjoint_witness:
  "{1, 2, 3, 4} \<inter> pmm_free_set (snd (pmm_alloc_pages 4 pmm_booted)) = {}"
  using pmm_live_blocks_disjoint [OF run_booted_alloc] by (auto simp: upt_rec [of "Suc 0"] numeral_eq_Suc)

text \<open>No allocation and no release of another block changes a byte of a block that a client
  holds.\<close>
theorem pmm_live_block_preserved:
  assumes "pmm_run s (l1 @ (sp, n) # l2)" "in_range (managed_addr sp) (4096 * n) x"
  shows "mem (snd (pmm_alloc_pages k s)) x = mem s x \<and>
    ((sp', n') \<in> set (l1 @ l2) \<longrightarrow> mem (snd (pmm_free_pages (managed_addr sp') (of_nat n') s)) x = mem s x)"
proof -
  note L = pmm_run_live_inv [OF assms(1)]
  have inv: "pmm_inv s" using L by (simp add: live_inv_def)
  have n: "0 < n" using assms(2) by (cases n) (auto simp: in_range_def)
  have "(sp, n) \<in> set (l1 @ (sp, n) # l2)" by simp
  note B = live_block [OF L this n]
  have sp: "0 < sp" "sp + n \<le> 4096" using B by simp_all
  then have pg: "0x1020 + sp \<le> unat (page_no x)" "unat (page_no x) < 0x1020 + sp + n"
    using assms(2) in_block_pages by blast+
  then have off: "page_no x \<noteq> 0x1020" using sp(1) by auto
  have "mem (snd (pmm_alloc_pages k s)) x = mem s x"
  proof (cases "fst (pmm_alloc_pages k s) = 0")
    case True
    then show ?thesis using alloc_null [OF _ inv] by (metis prod.collapse)
  next
    case False
    from alloc_result [OF inv prod.collapse [symmetric] False] obtain q where q: "fst (pmm_alloc_pages k s) = managed_addr q"
      "q + unat k \<le> 4096" "{q..<q + unat k} \<subseteq> pmm_free_set s"
      "\<forall>x. \<not> in_range (fst (pmm_alloc_pages k s)) (4096 * unat k) x \<and> page_no x \<noteq> 0x1020 \<longrightarrow>
        mem (snd (pmm_alloc_pages k s)) x = mem s x" by metis
    have "unat (page_no x) - 0x1020 \<in> {sp..<sp + n}" using pg by auto
    then have "unat (page_no x) - 0x1020 \<notin> {q..<q + unat k}" using B(1) q(3) by blast
    then have "\<not> in_range (managed_addr q) (4096 * unat k) x" using in_block_pages [OF q(2)] pg(1) by auto
    with q(1,4) off show ?thesis by simp
  qed
  moreover have "mem (snd (pmm_free_pages a m s)) x = mem s x" if "a = managed_addr sp'" "m = of_nat n'"
      "(sp', n') \<in> set (l1 @ l2)" for a m
  proof (cases "n' = 0")
    case True
    then show ?thesis using that by (simp add: pmm_free_pages_def)
  next
    case False
    note B' = live_block [OF L, of sp' n']
    have "unat m = n'" "m \<noteq> 0" using B' that False
      by (simp_all add: unat_of_nat_small unat_eq_zero [symmetric])
    then show ?thesis
      using free_block_inv_iff(4) [OF inv _ _ prod.collapse [symmetric] off, of sp' m] B' that False by simp
  qed
  ultimately show ?thesis by blast
qed

theorem pmm_live_block_preserved_witness:
  "mem (snd (pmm_alloc_pages 9 (snd (pmm_alloc_pages 4 pmm_booted)))) 0x1023456 =
   mem (snd (pmm_alloc_pages 4 pmm_booted)) 0x1023456"
  using pmm_live_block_preserved [of _ "[]" 1 4 "[]"] run_booted_alloc
  by (simp add: in_range_def managed_addr_def)

section \<open>Queries, ranges and reports\<close>

text \<open>C35: what the queries answer: the counts in the statistics and the two byte totals are those
  of the set of free pages, and \<open>pmm_is_page_allocated\<close> decides membership in it for every
  address, answering that addresses outside the managed range are allocated.\<close>
theorem pmm_queries_exact:
  assumes "pmm_inv s"
  shows "unat (free_pages (pmm_get_stats s)) = card (pmm_free_set s) \<and>
    unat (used_pages (pmm_get_stats s)) = 4096 - card (pmm_free_set s) \<and>
    unat (pmm_get_free_memory s) = 4096 * card (pmm_free_set s) \<and>
    unat (pmm_get_free_memory s) + unat (pmm_get_used_memory s) = 4096 * 4096 \<and>
    (pmm_is_page_allocated x s \<longleftrightarrow> \<not> (0x1020 \<le> unat (page_no x) \<and> unat (page_no x) - 0x1020 \<in> pmm_free_set s))"
proof -
  note I = assms [unfolded pmm_inv_def pmm_layout_def]
  have c: "unat (pmm_free_page_count s) = card (pmm_free_set s)" "card (pmm_free_set s) \<le> 4096"
    using I card_free_le by auto
  have used: "unat (4096 - pmm_free_page_count s) = 4096 - card (pmm_free_set s)"
    using c by (subst unat_sub_le) simp_all
  have m: "unat (pmm_free_page_count s * 4096) = 4096 * card (pmm_free_set s)"
    using c by (subst unat_mult_small) simp_all
  have m': "unat ((4096 - pmm_free_page_count s) * 4096) = 4096 * (4096 - card (pmm_free_set s))"
    using c used by (subst unat_mult_small) simp_all
  have "pmm_is_page_allocated x s \<longleftrightarrow> \<not> (0x1020 \<le> unat (page_no x) \<and> unat (page_no x) - 0x1020 \<in> pmm_free_set s)"
  proof (cases "x < 0x1020000 \<or> 0x2020000 \<le> x")
    case True
    then have "\<not> (0x1020 \<le> unat (page_no x) \<and> unat (page_no x) - 0x1020 < 4096)"
      by (auto simp: unat_page_no word_less_nat_alt word_le_nat_alt)
    then show ?thesis using True I by (auto simp: pmm_is_page_allocated_def free_bits_def)
  next
    case False
    then have b: "0x1020000 \<le> unat x" "x \<noteq> 0" by (auto simp: word_less_nat_alt word_le_nat_alt)
    then have "unat ((x - 0x1020000) div 4096) = unat (page_no x) - 0x1020"
      by (simp add: unat_div unat_sub_le unat_page_no)
    moreover have "0x1020 \<le> unat (page_no x)" using b(1) by (simp add: unat_page_no)
    ultimately show ?thesis using False b(2) I bm.test_free [of s "(x - 0x1020000) div 4096"]
      by (auto simp: pmm_is_page_allocated_def pmm_layout_def)
  qed
  then show ?thesis using I c used m m'
    by (simp add: pmm_get_stats_def pmm_get_free_memory_def pmm_get_used_memory_def Let_def)
qed

theorem pmm_queries_exact_witness:
  "pmm_is_page_allocated 0x1020000 pmm_booted \<and> \<not> pmm_is_page_allocated 0x1021000 pmm_booted \<and>
   unat (pmm_get_free_memory pmm_booted) = 4096 * 4095"
proof -
  have "unat (page_no 0x1020000) = 0x1020" "unat (page_no 0x1021000) = 0x1021" by (simp_all add: unat_page_no)
  then show ?thesis using pmm_queries_exact [OF booted_facts(1)] by (simp add: booted_facts)
qed

lemma region_page_bounds:
  assumes "page_aligned start" "0x1020000 \<le> start" "unat sz + 4095 < 4294967296" "in_range start (unat sz) x"
    "x < 0x2020000"
  shows "0x1020 \<le> unat (page_no x)" "unat (page_no x) - 0x1020 \<in> region_pages start sz"
proof -
  have "2 ^ 12 dvd unat start" using assms(1) by (simp only: aligned_dvd)
  then obtain q where q: "unat start = 4096 * q" by (auto elim: dvdE)
  have b: "0x1020000 \<le> unat start" "unat start \<le> unat x" "unat x < unat start + unat sz" "unat x < 0x2020000"
    using assms(2,4,5) by (auto simp: word_le_nat_alt word_less_nat_alt in_range_def)
  have c: "region_count sz = (unat sz + 4095) div 4096"
    using assms(3) by (simp add: region_count_def unat_div unat_add_small)
  show "0x1020 \<le> unat (page_no x)" using b by (simp add: unat_page_no)
  show "unat (page_no x) - 0x1020 \<in> region_pages start sz"
    unfolding region_pages_def region_first_def c unat_page_no using b q by simp linarith
qed

text \<open>C36: reserving a page-aligned range that does not reach the top of the address space takes
  every managed page it touches out of the free set and no other, keeps the invariant and
  changes nothing but the bitmap's page.\<close>
theorem pmm_reserve_region_covers:
  assumes "pmm_inv s" "page_aligned start" "0x1020000 \<le> start" "unat sz + 4095 < 4294967296"
    "pmm_reserve_region start sz s = (r, s')"
  shows "r = PMM_SUCCESS \<and> pmm_inv s' \<and> pmm_free_set s' = pmm_free_set s - region_pages start sz \<and>
    (\<forall>x. in_range start (unat sz) x \<and> x < 0x2020000 \<longrightarrow>
       0x1020 \<le> unat (page_no x) \<and> unat (page_no x) - 0x1020 \<notin> pmm_free_set s') \<and>
    (\<forall>x. page_no x \<noteq> 0x1020 \<longrightarrow> mem s' x = mem s x)"
  using reserve_region [OF assms(1,5)] assms(3) region_page_bounds [OF assms(2,3,4)] by auto

theorem pmm_reserve_region_covers_witness:
  "pmm_free_set (snd (pmm_reserve_region 0x1100000 0x2000 pmm_booted)) = {1..<4096} - {224, 225}"
proof -
  have e: "region_pages 0x1100000 0x2000 = {224, 225}"
    by (auto simp: region_pages_def region_first_def region_count_def)
  have al: "page_aligned 0x1100000" by (simp add: aligned_def)
  obtain r s' where R: "pmm_reserve_region 0x1100000 0x2000 pmm_booted = (r, s')" by fastforce
  then show ?thesis using pmm_reserve_region_covers [OF booted_facts(1) al _ _ R]
    by (simp add: e booted_facts)
qed

text \<open>Two ranges the reservation does not cover although it reports success: the last page of
  a range that starts inside a page is left free, and a size within a page of \<open>2^32\<close> wraps to
  zero pages.\<close>
theorem pmm_reserve_region_gaps:
  assumes "pmm_inv s"
  shows "pmm_free_set (snd (pmm_reserve_region 0x1021800 0x1000 s)) = pmm_free_set s - {1} \<and>
    (4294967296 - 4096 < unat sz \<longrightarrow> pmm_reserve_region start sz s = (PMM_SUCCESS, s))"
proof
  have "region_pages 0x1021800 0x1000 = {1}"
    by (auto simp: region_pages_def region_first_def region_count_def)
  then show "pmm_free_set (snd (pmm_reserve_region 0x1021800 0x1000 s)) = pmm_free_set s - {1}"
    using reserve_region(3) [OF assms prod.collapse [symmetric]] by simp
  show "4294967296 - 4096 < unat sz \<longrightarrow> pmm_reserve_region start sz s = (PMM_SUCCESS, s)"
  proof
    assume "4294967296 - 4096 < unat sz"
    then have "(unat sz + 4095) mod 4294967296 = (unat sz + 4095 - 4294967296) mod 4294967296"
      by (intro le_mod_geq) linarith
    also have "\<dots> \<le> unat sz + 4095 - 4294967296" by (rule mod_less_eq_dividend)
    finally have "unat (sz + 4095) < 4096" using unat32_less [of sz] by (simp add: unat_word_ariths)
    then have "(sz + 4095) div 4096 = 0" by (intro word_eq_unatI) (simp add: unat_div)
    then show "pmm_reserve_region start sz s = (PMM_SUCCESS, s)"
      using assms by (simp add: pmm_reserve_region_def pmm_inv_def Let_def add.commute [of 4095 sz])
  qed
qed

theorem pmm_reserve_region_gaps_witness:
  "2 \<in> pmm_free_set (snd (pmm_reserve_region 0x1021800 0x1000 pmm_booted)) \<and>
   snd (pmm_reserve_region 0x1100000 0xFFFFFFFF pmm_booted) = pmm_booted"
  using pmm_reserve_region_gaps [where s = pmm_booted and sz = "0xFFFFFFFF" and start = "0x1100000"] by (simp add: booted_facts)


definition blank_console :: console where
  "blank_console = \<lparr>video = (\<lambda>_. 0), kprint_x = 0, kprint_y = 0, crtc = []\<rparr>"


end
