(* ===== verification/Paging.thy ===== *)
theory Paging
  imports PMM
begin

text \<open>
  The PAE page tables and the free list of physical pages of
  \<^verbatim>\<open>src/src/memory/paging.c\<close>. The free list is threaded through the free pages
  themselves: the first word of a free page is the address of the next one. Page directories
  and page tables are arrays of 64-bit entries in pages of that list.

  All accesses are to physical addresses: the tables lie in the identity-mapped part of
  memory, which \<^verbatim>\<open>setup_identity_mapping\<close> is shown to provide.
\<close>

section \<open>State\<close>

abbreviation (input) PAGE_SIZE :: u32 where "PAGE_SIZE \<equiv> 4096"
abbreviation (input) PAGE_PRESENT :: u32 where "PAGE_PRESENT \<equiv> 1"
abbreviation (input) PAGE_WRITABLE :: u32 where "PAGE_WRITABLE \<equiv> 2"
abbreviation (input) PAGE_USER :: u32 where "PAGE_USER \<equiv> 4"
abbreviation (input) HEAP_START :: u32 where "HEAP_START \<equiv> 0x20000"
abbreviation (input) HEAP_SIZE :: u32 where "HEAP_SIZE \<equiv> 0x1000000"

record paging = pmm +
  pdpt :: u32
  page_directories :: "u32 list"
  free_list_head :: u32
  next_free_page :: u32
  total_pages_allocated :: u32
  total_pages_freed :: u32

lemma paging_emit_fields [simp]:
  "pdpt (emit k s) = pdpt s" "page_directories (emit k s) = page_directories s"
  "free_list_head (emit k s) = free_list_head s" "next_free_page (emit k s) = next_free_page s"
  "total_pages_allocated (emit k s) = total_pages_allocated s"
  "total_pages_freed (emit k s) = total_pages_freed s" "paging.more (emit k s) = paging.more s"
  by (simp_all add: emit_def)

lemma paging_hw_fields [simp]:
  "pdpt (hw e s) = pdpt s" "page_directories (hw e s) = page_directories s"
  "free_list_head (hw e s) = free_list_head s" "next_free_page (hw e s) = next_free_page s"
  "total_pages_allocated (hw e s) = total_pages_allocated s"
  "total_pages_freed (hw e s) = total_pages_freed s" "paging.more (hw e s) = paging.more s"
  by (simp_all add: hw_def)

section \<open>The free list of physical pages\<close>

text \<open>The body of the loop of \<open>init_free_list\<close>: page \<open>i\<close> of the pool is zeroed and linked.\<close>

definition init_free_page :: "u32 \<Rightarrow> u32 \<Rightarrow> 'a paging_scheme \<Rightarrow> 'a paging_scheme" where
  "init_free_page pool_start i s =
     (let page_addr = pool_start + i * PAGE_SIZE;
          s = s\<lparr>mem := zero_words (PAGE_SIZE div 4) page_addr (mem s)\<rparr>;
          s = s\<lparr>mem := store32 page_addr (free_list_head s) (mem s)\<rparr>
      in s\<lparr>free_list_head := page_addr\<rparr>)"

definition init_free_list :: "'a paging_scheme \<Rightarrow> 'a paging_scheme" where
  "init_free_list s =
     (let s = printk ''Initializing physical memory free list...\<newline>'' [] s;
          initial_pool_size = 1024;
          pool_start = next_free_page s;
          s = for_lt initial_pool_size (init_free_page pool_start) s;
          s = s\<lparr>next_free_page := next_free_page s + initial_pool_size * PAGE_SIZE\<rparr>
      in printk ''Free list initialized with %u pages\<newline>'' [KInt initial_pool_size] s)"

definition allocate_from_free_list :: "'a paging_scheme \<Rightarrow> u32 \<times> 'a paging_scheme" where
  "allocate_from_free_list s =
     (if free_list_head s = NULL then
        (let page = next_free_page s;
             s = s\<lparr>next_free_page := next_free_page s + PAGE_SIZE\<rparr>;
             s = s\<lparr>mem := zero_words (PAGE_SIZE div 4) page (mem s)\<rparr>;
             s = s\<lparr>total_pages_allocated := total_pages_allocated s + 1\<rparr>
         in (page, s))
      else
        (let page = free_list_head s;
             s = s\<lparr>free_list_head := load32 (mem s) page\<rparr>;
             s = s\<lparr>mem := zero_words (PAGE_SIZE div 4) page (mem s)\<rparr>;
             s = s\<lparr>total_pages_allocated := total_pages_allocated s + 1\<rparr>
         in (page, s)))"

definition add_to_free_list :: "u32 \<Rightarrow> 'a paging_scheme \<Rightarrow> 'a paging_scheme" where
  "add_to_free_list page_addr s =
     (if page_addr = NULL then s
      else if page_addr AND (PAGE_SIZE - 1) \<noteq> 0
      then printk ''Warning: Freeing non-aligned page at 0x%x\<newline>'' [KInt page_addr] s
      else
       (let s = s\<lparr>mem := store32 page_addr (free_list_head s) (mem s)\<rparr>;
            s = s\<lparr>free_list_head := page_addr\<rparr>
        in s\<lparr>total_pages_freed := total_pages_freed s + 1\<rparr>))"

definition allocate_physical_page :: "'a paging_scheme \<Rightarrow> u32 \<times> 'a paging_scheme" where
  "allocate_physical_page s = allocate_from_free_list s"

definition free_physical_page :: "u32 \<Rightarrow> 'a paging_scheme \<Rightarrow> 'a paging_scheme" where
  "free_physical_page page s = add_to_free_list page s"

text \<open>
  The loop that counts the free list: the number of pages, or \<open>None\<close> when it gives up after
  more than 10000. The counter bounds the iterations whatever memory holds.
\<close>

function free_list_count :: "memory \<Rightarrow> u32 \<Rightarrow> u32 \<Rightarrow> u32 option" where
  "free_list_count m current free_count =
     (if current \<noteq> NULL then
        (let free_count = free_count + 1;
             current = load32 m current
         in if free_count > 10000 then None else free_list_count m current free_count)
      else Some free_count)"
  by pat_completeness auto
termination
proof (relation "measure (\<lambda>(m, c, n). if n = - 1 then 10002 else 10001 - unat n)", goal_cases)
  case (2 m c n n' c')
  then have le: "unat (n + 1) \<le> 10000" by (simp add: word_le_nat_alt not_less)
  show ?case
  proof (cases "n = - 1")
    case False
    then have "1 + n \<noteq> 0" by (simp add: add_eq_0_iff)
    then have "unat (n + 1) = unat n + 1" by (simp add: unatSuc add.commute)
    moreover have "n + 1 \<noteq> - 1"
    proof
      assume "n + 1 = - 1"
      then have "unat (n + 1) = unat (- 1 :: u32)" by (simp only:)
      with le show False by (simp add: unsigned_minus_1_eq_mask mask_eq_exp_minus_1)
    qed
    ultimately show ?thesis using False le 2 by simp
  qed (use 2 in simp)
qed simp

declare free_list_count.simps [simp del]

definition get_memory_stats :: "'a paging_scheme \<Rightarrow> 'a paging_scheme" where
  "get_memory_stats s =
     (let s = printk ''Memory Statistics:\<newline>'' [] s;
          s = printk ''  Total pages allocated: %u\<newline>'' [KInt (total_pages_allocated s)] s;
          s = printk ''  Total pages freed: %u\<newline>'' [KInt (total_pages_freed s)] s;
          s = printk ''  Pages in use: %u\<newline>'' [KInt (total_pages_allocated s - total_pages_freed s)] s
      in case free_list_count (mem s) (free_list_head s) 0 of
           None \<Rightarrow> printk ''  Free pages: >10000 (list may be corrupted)\<newline>'' [] s
         | Some free_count \<Rightarrow> printk ''  Free pages available: %u\<newline>'' [KInt free_count] s)"

section \<open>Control registers\<close>

text \<open>\<open>get_cr3\<close> stores only the low half of its result; \<open>upper\<close> is what the other half held.\<close>

definition get_cr3 :: "u32 \<Rightarrow> 'a machine_scheme \<Rightarrow> u64" where
  "get_cr3 upper s = push_bit 32 (ucast upper) OR ucast (cr3 s)"

definition set_cr0 :: "u32 \<Rightarrow> 'a machine_scheme \<Rightarrow> 'a machine_scheme" where
  "set_cr0 v s = hw (SetCr0 v) (s\<lparr>cr0 := v\<rparr>)"

definition set_cr3 :: "u64 \<Rightarrow> 'a machine_scheme \<Rightarrow> 'a machine_scheme" where
  "set_cr3 v s = hw (SetCr3 (ucast v)) (s\<lparr>cr3 := ucast v\<rparr>)"

definition set_cr4 :: "u32 \<Rightarrow> 'a machine_scheme \<Rightarrow> 'a machine_scheme" where
  "set_cr4 v s = hw (SetCr4 v) (s\<lparr>cr4 := v\<rparr>)"

definition enable_pae :: "'a machine_scheme \<Rightarrow> 'a machine_scheme" where
  "enable_pae s = set_cr4 (cr4 s OR 0x20) s"

definition enable_paging_bit :: "'a machine_scheme \<Rightarrow> 'a machine_scheme" where
  "enable_paging_bit s = set_cr0 (cr0 s OR 0x80000000) s"

section \<open>Page tables\<close>

record virtual_addr_t =
  offset :: u32
  pt_index :: u32
  pd_index :: u32
  pdpt_index :: u32

text \<open>The bit fields of the union.\<close>

definition virtual_addr :: "u32 \<Rightarrow> virtual_addr_t" where
  "virtual_addr raw = \<lparr>offset = take_bit 12 raw, pt_index = take_bit 9 (drop_bit 12 raw),
     pd_index = take_bit 9 (drop_bit 21 raw), pdpt_index = drop_bit 30 raw\<rparr>"

text \<open>\<^verbatim>\<open>table->entries[i]\<close>\<close>

definition entry_addr :: "u32 \<Rightarrow> u32 \<Rightarrow> u32" where
  "entry_addr table i = table + 8 * i"

definition get_entry :: "u32 \<Rightarrow> u32 \<Rightarrow> 'a machine_scheme \<Rightarrow> u64" where
  "get_entry table i s = load64 (mem s) (entry_addr table i)"

definition set_entry :: "u32 \<Rightarrow> u32 \<Rightarrow> u64 \<Rightarrow> 'a machine_scheme \<Rightarrow> 'a machine_scheme" where
  "set_entry table i v s = s\<lparr>mem := store64 (entry_addr table i) v (mem s)\<rparr>"

definition entry_table :: "u64 \<Rightarrow> u32" where
  "entry_table e = ucast (e AND 0xFFFFF000)"

definition page_directory :: "virtual_addr_t \<Rightarrow> 'a paging_scheme \<Rightarrow> u32" where
  "page_directory vaddr s = page_directories s ! unat (pdpt_index vaddr)"

definition paging_init_entry :: "u32 \<Rightarrow> 'a paging_scheme \<Rightarrow> 'a paging_scheme" where
  "paging_init_entry i s =
     (let (pd, s) = allocate_from_free_list s;
          s = s\<lparr>page_directories := (page_directories s)[unat i := pd]\<rparr>;
          s = set_entry (pdpt s) i (ucast pd OR ucast PAGE_PRESENT) s
      in printk ''PDPT[%d] -> 0x%x\<newline>'' [KInt i, KInt pd] s)"

definition paging_init :: "'a paging_scheme \<Rightarrow> 'a paging_scheme" where
  "paging_init s =
     (let s = printk ''Initializing PAE paging...\<newline>'' [] s;
          s = init_free_list s;
          (p, s) = allocate_from_free_list s;
          s = s\<lparr>pdpt := p\<rparr>
      in if pdpt s AND 0x1F \<noteq> 0 then printk ''ERROR: PDPT not properly aligned!\<newline>'' [] s
         else
          (let s = for_lt 4 paging_init_entry s
           in printk ''PDPT allocated at 0x%x\<newline>'' [KInt (pdpt s)] s))"

definition map_page :: "u32 \<Rightarrow> u64 \<Rightarrow> u32 \<Rightarrow> 'a paging_scheme \<Rightarrow> int \<times> 'a paging_scheme" where
  "map_page va physical_addr flags s =
     (let vaddr = virtual_addr va;
          pd = page_directory vaddr s
      in if pd = NULL then
           (- 1, printk ''ERROR: No page directory for PDPT index %d\<newline>'' [KInt (pdpt_index vaddr)] s)
         else
          (let s = (if get_entry pd (pd_index vaddr) s AND ucast PAGE_PRESENT = 0 then
                      (let (pt, s) = allocate_from_free_list s
                       in set_entry pd (pd_index vaddr)
                            (ucast pt OR ucast PAGE_PRESENT OR ucast PAGE_WRITABLE OR ucast (flags AND PAGE_USER)) s)
                    else s);
               pt = entry_table (get_entry pd (pd_index vaddr) s);
               s = set_entry pt (pt_index vaddr) (physical_addr OR ucast flags) s
           in (0, hw (Invlpg va) s)))"

definition unmap_page :: "u32 \<Rightarrow> 'a paging_scheme \<Rightarrow> int \<times> 'a paging_scheme" where
  "unmap_page va s =
     (let vaddr = virtual_addr va;
          pd = page_directory vaddr s
      in if pd = NULL \<or> get_entry pd (pd_index vaddr) s AND ucast PAGE_PRESENT = 0 then (- 1, s)
         else
          (let pt = entry_table (get_entry pd (pd_index vaddr) s);
               s = set_entry pt (pt_index vaddr) 0 s
           in (0, hw (Invlpg va) s)))"

definition get_physical_addr :: "u32 \<Rightarrow> 'a paging_scheme \<Rightarrow> u64" where
  "get_physical_addr va s =
     (let vaddr = virtual_addr va;
          pd = page_directory vaddr s
      in if pd = NULL \<or> get_entry pd (pd_index vaddr) s AND ucast PAGE_PRESENT = 0 then 0
         else
          (let pt = entry_table (get_entry pd (pd_index vaddr) s)
           in if get_entry pt (pt_index vaddr) s AND ucast PAGE_PRESENT = 0 then 0
              else (get_entry pt (pt_index vaddr) s AND 0xFFFFF000) OR ucast (offset vaddr)))"

section \<open>Setting up\<close>

text \<open>\<^verbatim>\<open>for (addr = start; addr < limit; addr += PAGE_SIZE)\<close>, the bounds far from the top.\<close>

definition for_pages :: "u32 \<Rightarrow> u32 \<Rightarrow> (u32 \<Rightarrow> 's \<Rightarrow> 's) \<Rightarrow> 's \<Rightarrow> 's" where
  "for_pages start limit f s = for_lt ((limit - start + PAGE_SIZE - 1) div PAGE_SIZE) (\<lambda>i. f (start + i * PAGE_SIZE)) s"

definition map_identity :: "u32 \<Rightarrow> 'a paging_scheme \<Rightarrow> 'a paging_scheme" where
  "map_identity addr s = snd (map_page addr (ucast addr) (PAGE_PRESENT OR PAGE_WRITABLE) s)"

definition setup_identity_mapping :: "'a paging_scheme \<Rightarrow> 'a paging_scheme" where
  "setup_identity_mapping s =
     (let s = printk ''Setting up identity mapping for first 32MB...\<newline>'' [] s;
          s = for_pages 0 0x2000000 map_identity s
      in printk ''Identity mapping complete (32MB mapped).\<newline>'' [] s)"

definition setup_kernel_heap :: "'a paging_scheme \<Rightarrow> 'a paging_scheme" where
  "setup_kernel_heap s =
     (let s = printk ''Setting up kernel heap at 0x%x (size: 0x%x)\<newline>'' [KInt HEAP_START, KInt HEAP_SIZE] s
      in for_pages HEAP_START (HEAP_START + HEAP_SIZE) map_identity s)"

definition enable_pae_paging :: "'a paging_scheme \<Rightarrow> 'a paging_scheme" where
  "enable_pae_paging s =
     (let s = printk ''Enabling PAE paging...\<newline>'' [] s;
          s = set_cr0 (cr0 s AND NOT 0x80000000) s;
          s = enable_pae s;
          s = set_cr3 (ucast (pdpt s)) s;
          s = enable_paging_bit s;
          s = printk ''PAE paging enabled successfully!\<newline>'' [] s
      in printk ''CR3 set to 0x%x\<newline>'' [KInt (pdpt s)] s)"

end
