(* ===== verification/Page_Source.thy ===== *)
theory Page_Source
  imports Memory
begin

text \<open>
  The contract of an allocator of physical pages, as its clients use it. \<open>inv s U n\<close>: in
  state \<open>s\<close> the pages of \<open>U\<close> are in their owners' hands and at least \<open>n\<close> more can be had.
  Two components of the kernel fulfil it: the bitmap allocator (\<open>PMM_Source\<close>) and the free
  list of the paging code (\<open>Paging_List\<close>), whose page tables rest on the lemmas proved here.
\<close>

text \<open>Two memories agree on a page.\<close>

definition same_page :: "u32 \<Rightarrow> memory \<Rightarrow> memory \<Rightarrow> bool" where
  "same_page p m m' \<longleftrightarrow> (\<forall>x. page_no x = page_no p \<longrightarrow> m' x = m x)"

lemma same_page_refl [simp]: "same_page p m m"
  by (simp add: same_page_def)

lemma same_page_trans: "same_page p m m' \<Longrightarrow> same_page p m' m'' \<Longrightarrow> same_page p m m''"
  by (simp add: same_page_def)

lemma same_page_load32: "same_page p m m' \<Longrightarrow> page_aligned p \<Longrightarrow> unat i < 1024 \<Longrightarrow> load32 m' (p + 4 * i) = load32 m (p + 4 * i)"
  by (intro w32.ld_page elem4_aligned) (simp_all add: same_page_def elem4_page)

lemma same_page_head: "same_page p m m' \<Longrightarrow> page_aligned p \<Longrightarrow> load32 m' p = load32 m p"
  using same_page_load32 [of p m m' 0] by simp

lemma same_page_load64: "same_page p m m' \<Longrightarrow> page_aligned p \<Longrightarrow> unat i < 512 \<Longrightarrow> load64 m' (p + 8 * i) = load64 m (p + 8 * i)"
  by (intro w64.ld_page elem8_aligned) (simp_all add: same_page_def elem8_page)

lemma same_page_store32: "page_aligned p \<Longrightarrow> page_aligned q \<Longrightarrow> p \<noteq> q \<Longrightarrow> same_page p m (store32 q v m)"
  by (auto simp: same_page_def page_no_eq aligned_mono intro!: w32.st_page)

lemma same_page_store64:
  "page_aligned p \<Longrightarrow> page_aligned q \<Longrightarrow> p \<noteq> q \<Longrightarrow> unat i < 512 \<Longrightarrow> same_page p m (store64 (q + 8 * i) v m)"
  by (auto simp: same_page_def page_no_eq elem8_page elem8_aligned intro!: w64.st_page)

lemma same_page_zero: "page_aligned p \<Longrightarrow> page_aligned q \<Longrightarrow> p \<noteq> q \<Longrightarrow> same_page p m (zero_words 1024 q m)"
  by (simp add: same_page_def zero_page page_no_eq)

section \<open>Allocation\<close>

locale page_source =
  fixes alloc :: "'s \<Rightarrow> u32 \<times> 's" and memo :: "'s \<Rightarrow> memory" and put :: "memory \<Rightarrow> 's \<Rightarrow> 's"
    and inv :: "'s \<Rightarrow> u32 set \<Rightarrow> nat \<Rightarrow> bool"
  assumes memo_put: "memo (put m s) = m"
    and owned: "inv s U n \<Longrightarrow> q \<in> U \<Longrightarrow> page_aligned q \<and> q \<noteq> 0"
    and alloc_fresh: "inv s U (Suc n) \<Longrightarrow> alloc s = (p, s') \<Longrightarrow> p \<notin> U \<and> inv s' (insert p U) n"
    and alloc_zero: "inv s U (Suc n) \<Longrightarrow> alloc s = (p, s') \<Longrightarrow> page_no x = page_no p \<Longrightarrow> memo s' x = 0"
    and alloc_frame: "inv s U (Suc n) \<Longrightarrow> alloc s = (p, s') \<Longrightarrow> q \<in> U \<Longrightarrow> same_page q (memo s) (memo s')"
    and write_owned: "inv s U n \<Longrightarrow> q \<in> U \<Longrightarrow> (\<forall>x. page_no x \<noteq> page_no q \<longrightarrow> m x = memo s x) \<Longrightarrow> inv (put m s) U n"
begin

lemma alloc_page_ok: "inv s U (Suc n) \<Longrightarrow> alloc s = (p, s') \<Longrightarrow> page_aligned p \<and> p \<noteq> 0"
  using alloc_fresh [of s U n p s'] owned [of s' "insert p U" n p] by blast

lemma owned_entry:
  "inv s U (Suc n) \<Longrightarrow> alloc s = (p, s') \<Longrightarrow> q \<in> U \<Longrightarrow> unat i < 512 \<Longrightarrow>
   load64 (memo s') (q + 8 * i) = load64 (memo s) (q + 8 * i)"
  using alloc_frame [of s U n p s' q] owned [of s U "Suc n" q] by (simp add: same_page_load64)

lemma fresh_entry:
  assumes "inv s U (Suc n)" "alloc s = (p, s')" "unat i < 512"
  shows "load64 (memo s') (p + 8 * i) = 0"
proof (rule load64_zero)
  fix x assume "x \<in> span (p + 8 * i) 8"
  moreover have "page_aligned p" using alloc_page_ok [OF assms(1,2)] by simp
  ultimately have "page_no x = page_no p"
    using w64.span_page [OF elem8_aligned, of p x i] elem8_page [of p i] assms(3) by simp
  then show "memo s' x = 0" by (rule alloc_zero [OF assms(1,2)])
qed

lemma write_entry:
  assumes "inv s U n" "q \<in> U" "unat i < 512"
  shows "inv (put (store64 (q + 8 * i) v (memo s)) s) U n"
proof (rule write_owned [OF assms(1,2)], intro allI impI)
  fix x assume "page_no x \<noteq> page_no q"
  moreover have "page_aligned q" using owned assms(1,2) by blast
  ultimately show "store64 (q + 8 * i) v (memo s) x = memo s x"
    using assms(3) by (intro w64.st_page elem8_aligned) (simp_all add: elem8_page)
qed

text \<open>Allocations in a row: the pages are new, distinct, and what was owned is untouched.\<close>

fun take_pages :: "nat \<Rightarrow> 's \<Rightarrow> u32 list \<times> 's" where
  "take_pages 0 s = ([], s)"
| "take_pages (Suc k) s = (let (p, s1) = alloc s; (ps, s2) = take_pages k s1 in (p # ps, s2))"

lemma take_pages_fresh:
  "inv s U (k + n) \<Longrightarrow> take_pages k s = (ps, s') \<Longrightarrow>
   distinct ps \<and> length ps = k \<and> set ps \<inter> U = {} \<and> inv s' (set ps \<union> U) n \<and> (\<forall>q\<in>U. same_page q (memo s) (memo s'))"
proof (induction k arbitrary: s U ps)
  case 0
  then show ?case by auto
next
  case (Suc k)
  obtain p s1 where a: "alloc s = (p, s1)" by fastforce
  obtain qs where t: "take_pages k s1 = (qs, s')" and ps: "ps = p # qs"
    using Suc.prems(2) a by (auto split: prod.splits)
  have i: "inv s U (Suc (k + n))" using Suc.prems(1) by simp
  note f = alloc_fresh [OF i a]
  with Suc.IH [of s1 "insert p U" qs] t have
    "distinct qs \<and> length qs = k \<and> set qs \<inter> insert p U = {} \<and> inv s' (set qs \<union> insert p U) n \<and>
     (\<forall>q\<in>insert p U. same_page q (memo s1) (memo s'))" by blast
  moreover have "\<forall>q\<in>U. same_page q (memo s) (memo s1)" using alloc_frame [OF i a] by blast
  ultimately show ?case using f ps by (auto intro: same_page_trans)
qed

end

section \<open>Release\<close>

locale page_allocator = page_source alloc memo put inv
  for alloc :: "'s \<Rightarrow> u32 \<times> 's" and memo :: "'s \<Rightarrow> memory" and put :: "memory \<Rightarrow> 's \<Rightarrow> 's"
    and inv :: "'s \<Rightarrow> u32 set \<Rightarrow> nat \<Rightarrow> bool" +
  fixes release :: "u32 \<Rightarrow> 's \<Rightarrow> 's"
  assumes release_ok: "inv s (insert p U) n \<Longrightarrow> p \<notin> U \<Longrightarrow> inv (release p s) U (Suc n)"
    and release_frame: "inv s (insert p U) n \<Longrightarrow> p \<notin> U \<Longrightarrow> q \<in> U \<Longrightarrow> same_page q (memo s) (memo (release p s))"
begin

text \<open>An allocation and its release, as a client sees them: what it owned is as before.\<close>

lemma alloc_release:
  assumes "inv s U (Suc n)" "alloc s = (p, s')"
  shows "inv (release p s') U (Suc n) \<and> (\<forall>q\<in>U. same_page q (memo s) (memo (release p s')))"
proof -
  note f = alloc_fresh [OF assms]
  then show ?thesis
    using release_ok [of s' p U n] release_frame [of s' p U n] alloc_frame [OF assms] by (auto intro: same_page_trans)
qed

end

end
