(* ===== verification/Paging_List.thy ===== *)
theory Paging_List
  imports Paging Page_Source
begin

text \<open>
  The free list of physical pages as a list: which pages hang off \<open>free_list_head\<close> in memory,
  the invariant of the pool with respect to the pages in use, the state \<open>init_free_list\<close>
  builds, and the proof that the pool fulfils the contract of a page allocator.
\<close>

section \<open>The list in memory\<close>

fun heap_list :: "memory \<Rightarrow> u32 \<Rightarrow> u32 list \<Rightarrow> bool" where
  "heap_list m h [] \<longleftrightarrow> h = 0"
| "heap_list m h (p # ps) \<longleftrightarrow> h = p \<and> p \<noteq> 0 \<and> heap_list m (load32 m p) ps"

lemma heap_list_cong: "(\<And>p. p \<in> set ps \<Longrightarrow> load32 m' p = load32 m p) \<Longrightarrow> heap_list m' h ps = heap_list m h ps"
  by (induction ps arbitrary: h) auto

lemma heap_list_null [simp]: "heap_list m 0 ps \<longleftrightarrow> ps = []"
  by (cases ps) auto

lemma heap_list_nonnull: "h \<noteq> 0 \<Longrightarrow> heap_list m h ps \<longleftrightarrow> (\<exists>qs. ps = h # qs \<and> heap_list m (load32 m h) qs)"
  by (cases ps) auto

lemma heap_list_unique: "heap_list m h ps \<Longrightarrow> heap_list m h qs \<Longrightarrow> ps = qs"
proof (induction ps arbitrary: h qs)
  case (Cons p ps)
  then show ?case by (cases qs) auto
qed auto

section \<open>The pool invariant\<close>

text \<open>How many pages the pool can still hand out after the list is used up.\<close>

definition bump_room :: "'a paging_scheme \<Rightarrow> nat" where
  "bump_room s = (0xFFFFF000 - unat (next_free_page s)) div 4096"

text \<open>
  The free pages \<open>ps\<close> and the pages in use \<open>U\<close> are distinct, page aligned, not null and
  below the part of the pool that was never handed out.
\<close>

definition pool_page :: "'a paging_scheme \<Rightarrow> u32 \<Rightarrow> bool" where
  "pool_page s p \<longleftrightarrow> page_aligned p \<and> p \<noteq> 0 \<and> unat p < unat (next_free_page s)"

definition pool_inv :: "'a paging_scheme \<Rightarrow> u32 list \<Rightarrow> u32 set \<Rightarrow> bool" where
  "pool_inv s ps U \<longleftrightarrow> heap_list (mem s) (free_list_head s) ps \<and> distinct ps \<and> set ps \<inter> U = {} \<and>
     (\<forall>p\<in>set ps \<union> U. pool_page s p) \<and> page_aligned (next_free_page s) \<and> next_free_page s \<noteq> 0"

definition pool_owns :: "'a paging_scheme \<Rightarrow> u32 set \<Rightarrow> nat \<Rightarrow> bool" where
  "pool_owns s U n \<longleftrightarrow> (\<exists>ps. pool_inv s ps U \<and> n \<le> length ps + bump_room s)"

lemma pool_inv_frame:
  assumes "pool_inv s ps U" "\<And>p. p \<in> set ps \<Longrightarrow> same_page p (mem s) m"
    "free_list_head s' = free_list_head s" "next_free_page s' = next_free_page s" "mem s' = m"
  shows "pool_inv s' ps U"
proof -
  have "load32 m p = load32 (mem s) p" if "p \<in> set ps" for p
    using assms(1,2) that by (intro same_page_head) (auto simp: pool_inv_def pool_page_def)
  then show ?thesis using assms(1,3,4,5) heap_list_cong [of ps m "mem s"]
    by (auto simp: pool_inv_def pool_page_def)
qed

lemma pool_write_owned:
  assumes "pool_inv s ps U" "q \<in> U" "\<forall>x. page_no x \<noteq> page_no q \<longrightarrow> m x = mem s x"
  shows "pool_inv (s\<lparr>mem := m\<rparr>) ps U"
proof (rule pool_inv_frame [OF assms(1)])
  fix p assume "p \<in> set ps"
  then have "p \<noteq> q" "page_aligned p" "page_aligned q" using assms(1,2) by (auto simp: pool_inv_def pool_page_def)
  then show "same_page p (mem s) m" using assms(3) by (simp add: same_page_def page_no_eq)
qed simp_all

section \<open>Allocation and release\<close>

lemma pool_bump_bounds:
  assumes "pool_inv s ps U" "0 < bump_room s"
  shows "unat (next_free_page s + 4096) = unat (next_free_page s) + 4096"
    "page_aligned (next_free_page s + 4096)" "bump_room (s\<lparr>next_free_page := next_free_page s + 4096\<rparr>) + 1 = bump_room s"
proof -
  have b: "unat (next_free_page s) + 4096 \<le> 0xFFFFF000" using assms(2) unfolding bump_room_def by linarith
  then show u: "unat (next_free_page s + 4096) = unat (next_free_page s) + 4096" by (simp add: unat_add_small)
  show "page_aligned (next_free_page s + 4096)"
    using assms(1) by (intro aligned_add) (simp_all add: pool_inv_def aligned_numeral)
  show "bump_room (s\<lparr>next_free_page := next_free_page s + 4096\<rparr>) + 1 = bump_room s"
    unfolding bump_room_def using u b by simp
qed

text \<open>From the list: the head is handed out, the rest stays.\<close>

definition pool_take :: "u32 \<Rightarrow> 'a paging_scheme \<Rightarrow> 'a paging_scheme" where
  "pool_take p s = s\<lparr>free_list_head := load32 (mem s) p, mem := zero_words 1024 p (mem s),
      total_pages_allocated := total_pages_allocated s + 1\<rparr>"

lemma pool_alloc_list:
  assumes "pool_inv s (p # ps) U"
  shows "allocate_from_free_list s = (p, pool_take p s)" "pool_inv (pool_take p s) ps (insert p U)"
proof -
  have h: "free_list_head s = p" "p \<noteq> 0" "heap_list (mem s) (load32 (mem s) p) ps" "p \<notin> set ps"
    using assms by (simp_all add: pool_inv_def)
  then show "allocate_from_free_list s = (p, pool_take p s)"
    by (simp add: allocate_from_free_list_def Let_def pool_take_def)
  have "pool_inv (s\<lparr>free_list_head := load32 (mem s) p\<rparr>) ps (insert p U)"
    using assms h(3) by (auto simp: pool_inv_def pool_page_def)
  then have "pool_inv (s\<lparr>free_list_head := load32 (mem s) p, mem := zero_words 1024 p (mem s)\<rparr>) ps (insert p U)"
    by (rule pool_write_owned [where q = p, simplified]) (use assms in \<open>simp_all add: zero_page pool_inv_def pool_page_def\<close>)
  then show "pool_inv (pool_take p s) ps (insert p U)" by (simp add: pool_inv_def pool_page_def pool_take_def)
qed

text \<open>From the rest of the pool, when the list is empty.\<close>

definition pool_bump :: "'a paging_scheme \<Rightarrow> 'a paging_scheme" where
  "pool_bump s = s\<lparr>next_free_page := next_free_page s + 4096,
      mem := zero_words 1024 (next_free_page s) (mem s), total_pages_allocated := total_pages_allocated s + 1\<rparr>"

lemma pool_alloc_bump:
  assumes "pool_inv s [] U" "0 < bump_room s"
  shows "allocate_from_free_list s = (next_free_page s, pool_bump s)"
    "pool_inv (pool_bump s) [] (insert (next_free_page s) U)" "next_free_page s \<notin> U"
    "bump_room (pool_bump s) + 1 = bump_room s"
proof -
  note b = pool_bump_bounds [OF assms]
  show "allocate_from_free_list s = (next_free_page s, pool_bump s)"
    using assms(1) by (simp add: allocate_from_free_list_def Let_def pool_inv_def pool_bump_def)
  have "next_free_page s + 4096 \<noteq> 0"
  proof
    assume "next_free_page s + 4096 = 0"
    then have "unat (next_free_page s + 4096) = 0" by (simp only: unat_0)
    with b(1) show False by simp
  qed
  then show "pool_inv (pool_bump s) [] (insert (next_free_page s) U)"
    using assms(1) b by (auto simp: pool_inv_def pool_page_def pool_bump_def)
  show "next_free_page s \<notin> U" using assms(1) by (auto simp: pool_inv_def pool_page_def)
  show "bump_room (pool_bump s) + 1 = bump_room s" using b(3) by (simp add: pool_bump_def bump_room_def)
qed

lemma pool_alloc:
  assumes "pool_owns s U (Suc n)" "allocate_from_free_list s = (p, s')"
  shows "p \<notin> U \<and> pool_owns s' (insert p U) n" "page_aligned p"
    "mem s' = zero_words 1024 p (mem s)" "q \<in> U \<Longrightarrow> page_aligned q \<and> p \<noteq> q"
proof -
  obtain ps where ps: "pool_inv s ps U" "Suc n \<le> length ps + bump_room s" using assms(1) by (auto simp: pool_owns_def)
  have "p \<notin> U \<and> pool_owns s' (insert p U) n \<and> page_aligned p \<and> mem s' = zero_words 1024 p (mem s)"
  proof (cases ps)
    case Nil
    with ps(2) have b: "0 < bump_room s" by simp
    note A = pool_alloc_bump [OF ps(1) [unfolded Nil] b]
    have e: "p = next_free_page s" "s' = pool_bump s" using A(1) assms(2) by simp_all
    have "pool_owns s' (insert p U) n"
      unfolding pool_owns_def e using A(2,4) ps(2) Nil by (intro exI [of _ "[]"]) simp
    then show ?thesis using A(3) ps(1) by (simp add: e pool_inv_def pool_bump_def)
  next
    case (Cons q qs)
    note A = pool_alloc_list [OF ps(1) [unfolded Cons]]
    have e: "p = q" "s' = pool_take q s" using A(1) assms(2) by simp_all
    have "pool_owns s' (insert p U) n"
      unfolding pool_owns_def e using A(2) ps(2) Cons
      by (intro exI [of _ qs]) (simp add: pool_take_def bump_room_def)
    then show ?thesis using ps(1) Cons by (simp add: e pool_inv_def pool_page_def pool_take_def)
  qed
  then show "p \<notin> U \<and> pool_owns s' (insert p U) n" "page_aligned p" "mem s' = zero_words 1024 p (mem s)"
    "q \<in> U \<Longrightarrow> page_aligned q \<and> p \<noteq> q"
    using ps(1) by (auto simp: pool_inv_def pool_page_def)
qed

lemma aligned_mask: "page_aligned p \<longleftrightarrow> p AND 4095 = 0"
  by (simp add: aligned_def take_bit_eq_mask mask_eq_exp_minus_1)

lemma pool_release_inv:
  assumes "pool_inv s ps (insert p U)" "p \<notin> U"
  shows "pool_inv (add_to_free_list p s) (p # ps) U" "q \<in> U \<Longrightarrow> same_page q (mem s) (mem (add_to_free_list p s))"
    "next_free_page (add_to_free_list p s) = next_free_page s"
proof -
  have p: "page_aligned p" "p \<noteq> 0" "p \<notin> set ps" using assms(1) by (auto simp: pool_inv_def pool_page_def)
  then have e: "add_to_free_list p s = s\<lparr>mem := store32 p (free_list_head s) (mem s), free_list_head := p,
      total_pages_freed := total_pages_freed s + 1\<rparr>"
    by (simp add: add_to_free_list_def Let_def aligned_mask)
  show "next_free_page (add_to_free_list p s) = next_free_page s" by (simp add: e)
  have "pool_inv (s\<lparr>mem := store32 p (free_list_head s) (mem s)\<rparr>) ps (insert p U)"
    using p(1) by (intro pool_write_owned [OF assms(1), of p]) (auto intro!: w32.st_page simp: aligned_mono)
  then show "pool_inv (add_to_free_list p s) (p # ps) U"
    using assms(2) p by (auto simp: e pool_inv_def pool_page_def load32_store32)
  assume "q \<in> U"
  then have "page_aligned q" "q \<noteq> p" using assms by (auto simp: pool_inv_def pool_page_def)
  then show "same_page q (mem s) (mem (add_to_free_list p s))" using p(1) by (simp add: e same_page_store32)
qed

lemma pool_release:
  assumes "pool_owns s (insert p U) n" "p \<notin> U"
  shows "pool_owns (add_to_free_list p s) U (Suc n)"
    "q \<in> U \<Longrightarrow> same_page q (mem s) (mem (add_to_free_list p s))"
proof -
  obtain ps where ps: "pool_inv s ps (insert p U)" "n \<le> length ps + bump_room s" using assms(1) by (auto simp: pool_owns_def)
  note R = pool_release_inv [OF ps(1) assms(2)]
  show "pool_owns (add_to_free_list p s) U (Suc n)"
    unfolding pool_owns_def using R(1,3) ps(2) by (intro exI [of _ "p # ps"]) (simp add: bump_room_def)
  show "q \<in> U \<Longrightarrow> same_page q (mem s) (mem (add_to_free_list p s))" by (rule R(2))
qed

interpretation pool: page_allocator allocate_from_free_list mem "\<lambda>m s. s\<lparr>mem := m\<rparr>" pool_owns add_to_free_list
proof unfold_locales
  fix s s' :: "'a paging_scheme" and U n p q
  assume a: "pool_owns s U (Suc n)" "allocate_from_free_list s = (p, s')" and "q \<in> U"
  then show "same_page q (mem s) (mem s')" using pool_alloc(2,3,4) [OF a]
    by (metis same_page_zero)
next
  fix s s' :: "'a paging_scheme" and U n p x
  assume a: "pool_owns s U (Suc n)" "allocate_from_free_list s = (p, s')" and "page_no x = page_no p"
  then show "mem s' x = 0" using pool_alloc(2,3) [OF a] by (simp add: zero_page)
next
  fix s :: "'a paging_scheme" and U n q m
  assume o: "pool_owns s U n" and w: "q \<in> U" "\<forall>x. page_no x \<noteq> page_no q \<longrightarrow> m x = mem s x"
  then obtain ps where ps: "pool_inv s ps U" "n \<le> length ps + bump_room s" by (auto simp: pool_owns_def)
  have "pool_inv (s\<lparr>mem := m\<rparr>) ps U" by (rule pool_write_owned [OF ps(1) w])
  then show "pool_owns (s\<lparr>mem := m\<rparr>) U n" using ps(2) by (auto simp: pool_owns_def bump_room_def)
next
  fix s :: "'a paging_scheme" and U n q
  assume "pool_owns s U n" "q \<in> U"
  then show "page_aligned q \<and> q \<noteq> 0" by (auto simp: pool_owns_def pool_inv_def pool_page_def)
qed (simp_all add: pool_alloc(1) pool_release)

end
