(* ===== verification/Paging_Pool.thy ===== *)
theory Paging_Pool
  imports Paging_List
begin

text \<open>
  The pool \<open>init_free_list\<close> builds, the length \<open>get_memory_stats\<close> reports, and what a double
  release does to the list.
\<close>

section \<open>Building the pool\<close>

text \<open>The bitmap allocator's variables, which the paging code never touches.\<close>

definition pmm_part :: "'a pmm_scheme \<Rightarrow> u32 \<times> u32 \<times> u32 \<times> u32 \<times> u32 \<times> bool" where
  "pmm_part s = (pmm_bitmap s, pmm_bitmap_size s, pmm_total_pages s, pmm_free_page_count s,
     pmm_last_allocated s, pmm_initialized s)"

definition pool_addr :: "u32 \<Rightarrow> nat \<Rightarrow> u32" where
  "pool_addr base i = base + of_nat i * 4096"

lemma unat_pool_addr: "unat base + 4096 * i < 4294967296 \<Longrightarrow> unat (pool_addr base i) = unat base + 4096 * i"
  by (simp add: pool_addr_def unat_word_ariths unat_of_nat mult.commute)

lemma pool_addr_aligned: "page_aligned base \<Longrightarrow> page_aligned (pool_addr base i)"
  unfolding pool_addr_def mult.commute [of _ 4096] by (intro aligned_add aligned_mult) (simp_all add: aligned_numeral)

text \<open>One round of the loop: the zeroed page becomes the head of the list.\<close>

lemma init_page_links:
  assumes "page_aligned p" "p \<noteq> 0" "p \<notin> set ps" "\<forall>q\<in>set ps. page_aligned q" "heap_list (mem s) (free_list_head s) ps"
    "p = base + i * 4096"
  shows "heap_list (mem (init_free_page base i s)) p (p # ps)" "free_list_head (init_free_page base i s) = p"
    "page_no x \<noteq> page_no p \<Longrightarrow> mem (init_free_page base i s) x = mem s x"
    "init_free_page base i s = s\<lparr>mem := mem (init_free_page base i s), free_list_head := p\<rparr>"
proof -
  have e: "init_free_page base i s =
      s\<lparr>mem := store32 p (free_list_head s) (zero_words 1024 p (mem s)), free_list_head := p\<rparr>"
    by (simp add: init_free_page_def Let_def assms(6))
  show frame: "page_no x \<noteq> page_no p \<Longrightarrow> mem (init_free_page base i s) x = mem s x" for x
    using assms(1) by (simp add: e w32.st_page aligned_mono zero_page)
  show "init_free_page base i s = s\<lparr>mem := mem (init_free_page base i s), free_list_head := p\<rparr>"
    "free_list_head (init_free_page base i s) = p" by (simp_all add: e)
  have "load32 (mem (init_free_page base i s)) q = load32 (mem s) q" if "q \<in> set ps" for q
  proof -
    have "page_aligned q" "page_no q \<noteq> page_no p" using that assms(1,3,4) by (auto simp: page_no_eq)
    then show ?thesis using frame by (intro same_page_head) (simp_all add: same_page_def)
  qed
  then have "heap_list (mem (init_free_page base i s)) (free_list_head s) ps"
    using assms(5) heap_list_cong by blast
  then show "heap_list (mem (init_free_page base i s)) p (p # ps)"
    using assms(2) by (simp add: e load32_store32)
qed

definition pool_list :: "u32 \<Rightarrow> nat \<Rightarrow> u32 list" where
  "pool_list base n = rev (map (pool_addr base) [0..<n])"

lemma pool_list_Suc: "pool_list base (Suc n) = pool_addr base n # pool_list base n"
  by (simp add: pool_list_def)

lemma init_loop:
  assumes "pool_inv s ps U" "1024 \<le> bump_room s"
  defines "base \<equiv> next_free_page s"
  defines "t \<equiv> for_lt 1024 (init_free_page base) s"
  shows "heap_list (mem t) (free_list_head t) (pool_list base 1024 @ ps)"
    "t = s\<lparr>mem := mem t, free_list_head := free_list_head t\<rparr>"
    "unat (page_no x) < unat (page_no base) \<or> unat (page_no base) + 1024 \<le> unat (page_no x) \<Longrightarrow> mem t x = mem s x"
proof -
  define P where "P k t \<longleftrightarrow> heap_list (mem t) (free_list_head t) (pool_list base k @ ps) \<and>
    t = s\<lparr>mem := mem t, free_list_head := free_list_head t\<rparr> \<and>
    (\<forall>x. unat (page_no x) < unat (page_no base) \<or> unat (page_no base) + k \<le> unat (page_no x) \<longrightarrow> mem t x = mem s x)" for k t
  have room: "unat base + 4096 * 1024 \<le> 0xFFFFF000" using assms(2) unfolding bump_room_def base_def by linarith
  have u: "unat (pool_addr base i) = unat base + 4096 * i" if "i \<le> 1024" for i
    using room that by (intro unat_pool_addr) simp
  have al: "page_aligned base" using assms(1) by (simp add: pool_inv_def base_def)
  have old: "page_aligned q" "unat q < unat base" if "q \<in> set ps" for q
    using assms(1) that by (auto simp: pool_inv_def pool_page_def base_def)
  have "P (unat (1024 :: u32)) t" unfolding t_def
  proof (rule for_lt_invariant [where P = P])
    show "P 0 s" using assms(1) by (simp add: P_def pool_list_def pool_inv_def)
  next
    fix k t assume k: "k < unat (1024 :: u32)" and t: "P k t"
    define p where "p = pool_addr base k"
    have pu: "unat p = unat base + 4096 * k" using u k by (simp add: p_def)
    have base0: "0 < unat base" using assms(1) by (simp add: pool_inv_def base_def unat_gt_0)
    have L: "page_aligned p" "p \<noteq> 0" "p = base + of_nat k * 4096"
      using al pu base0 by (auto simp: p_def pool_addr_aligned) (simp add: pool_addr_def)
    have notin: "p \<notin> set (pool_list base k @ ps)"
    proof
      assume "p \<in> set (pool_list base k @ ps)"
      then have "(\<exists>i<k. p = pool_addr base i) \<or> p \<in> set ps" by (auto simp: pool_list_def)
      then show False using old(2) [of p] pu u k by auto
    qed
    have als: "\<forall>q\<in>set (pool_list base k @ ps). page_aligned q"
      using old(1) al by (auto simp: pool_list_def pool_addr_aligned)
    have hl: "heap_list (mem t) (free_list_head t) (pool_list base k @ ps)" using t by (simp add: P_def)
    note I = init_page_links [OF L(1,2) notin als hl L(3)]
    have pn: "unat (page_no p) = unat (page_no base) + k" by (simp add: unat_page_no pu)
    have "heap_list (mem (init_free_page base (of_nat k) t)) (free_list_head (init_free_page base (of_nat k) t))
        (pool_list base (Suc k) @ ps)" using I(1,2) by (simp only: pool_list_Suc p_def append_Cons)
    moreover have "init_free_page base (of_nat k) t = s\<lparr>mem := mem (init_free_page base (of_nat k) t),
        free_list_head := free_list_head (init_free_page base (of_nat k) t)\<rparr>"
    proof -
      have "t = s\<lparr>mem := mem t, free_list_head := free_list_head t\<rparr>" using t by (simp add: P_def)
      then obtain m h where "t = s\<lparr>mem := m, free_list_head := h\<rparr>" by blast
      then show ?thesis using I(4) I(2) by simp
    qed
    moreover have "mem (init_free_page base (of_nat k) t) x = mem s x"
      if "unat (page_no x) < unat (page_no base) \<or> unat (page_no base) + Suc k \<le> unat (page_no x)" for x
    proof -
      have "page_no x \<noteq> page_no p" using that pn by auto
      then have "mem (init_free_page base (of_nat k) t) x = mem t x" by (rule I(3))
      moreover have "unat (page_no x) < unat (page_no base) \<or> unat (page_no base) + k \<le> unat (page_no x)"
        using that by linarith
      then have "mem t x = mem s x" using t unfolding P_def by blast
      ultimately show ?thesis by simp
    qed
    ultimately show "P (Suc k) (init_free_page base (of_nat k) t)" unfolding P_def by blast
  qed
  then have "P 1024 t" by simp
  then show "heap_list (mem t) (free_list_head t) (pool_list base 1024 @ ps)"
    "t = s\<lparr>mem := mem t, free_list_head := free_list_head t\<rparr>"
    "unat (page_no x) < unat (page_no base) \<or> unat (page_no base) + 1024 \<le> unat (page_no x) \<Longrightarrow> mem t x = mem s x"
    unfolding P_def by blast+
qed

lemma pool_list_set: "q \<in> set (pool_list base n) \<longleftrightarrow> (\<exists>i<n. q = pool_addr base i)"
  by (auto simp: pool_list_def)

lemma distinct_pool_list: "unat base + 4096 * n \<le> 4294967296 \<Longrightarrow> distinct (pool_list base n)"
proof (induction n)
  case 0
  then show ?case by (simp add: pool_list_def)
next
  case (Suc n)
  have "pool_addr base n \<noteq> pool_addr base i" if "i < n" for i
  proof
    assume "pool_addr base n = pool_addr base i"
    then have "unat (pool_addr base n) = unat (pool_addr base i)" by (simp only:)
    then show False using Suc.prems that by (simp add: unat_pool_addr)
  qed
  then show ?case using Suc by (auto simp: pool_list_Suc pool_list_set)
qed

lemma init_free_list_pool:
  assumes "pool_inv s ps U" "1024 \<le> bump_room s"
  defines "base \<equiv> next_free_page s"
  defines "t \<equiv> init_free_list s"
  shows "pool_inv t (pool_list base 1024 @ ps) U" "bump_room t + 1024 = bump_room s"
    "next_free_page t = base + 0x400000"
    "unat (page_no x) < unat (page_no base) \<or> unat (page_no base) + 1024 \<le> unat (page_no x) \<Longrightarrow> mem t x = mem s x"
    "paging.more t = paging.more s" "io t = io s" "pmm_part t = pmm_part s"  "pmm_initialized t = pmm_initialized s"
    "total_pages_allocated t = total_pages_allocated s" "page_directories t = page_directories s"
proof -
  define s0 where "s0 = printk ''Initializing physical memory free list...\<newline>'' [] s"
  define t1 where "t1 = for_lt 1024 (init_free_page base) s0"
  have p0: "pool_inv s0 ps U" using assms(1) by (simp add: pool_inv_def pool_page_def s0_def)
  have b0: "bump_room s0 = bump_room s" "next_free_page s0 = base" by (simp_all add: bump_room_def s0_def base_def)
  note L = init_loop [OF p0, unfolded b0, OF assms(2), folded t1_def]
  have e: "t = printk ''Free list initialized with %u pages\<newline>'' [KInt 1024] (t1\<lparr>next_free_page := next_free_page t1 + 0x400000\<rparr>)"
    by (simp add: t_def init_free_list_def Let_def t1_def s0_def base_def)
  obtain m h where t1: "t1 = s0\<lparr>mem := m, free_list_head := h\<rparr>" using L(2) by blast
  have n: "next_free_page t = base + 0x400000" using b0 by (simp add: e t1)
  show "next_free_page t = base + 0x400000" by (rule n)
  have room: "unat base + 4096 * 1024 \<le> 0xFFFFF000" using assms(2) unfolding bump_room_def base_def by linarith
  have al: "page_aligned base" "base \<noteq> 0" using assms(1) by (simp_all add: pool_inv_def base_def)
  have u: "unat (pool_addr base i) = unat base + 4096 * i" if "i \<le> 1024" for i
    using room that by (intro unat_pool_addr) simp
  have un: "unat (base + 0x400000) = unat base + 0x400000" using room by (simp add: unat_add_small)
  show "bump_room t + 1024 = bump_room s"
    unfolding bump_room_def n un using room by (simp add: base_def [symmetric])
  have hl: "heap_list (mem t) (free_list_head t) (pool_list base 1024 @ ps)" using L(1) by (simp add: e)
  have old: "pool_page s q" "q \<notin> U" if "q \<in> set ps" for q using assms(1) that by (auto simp: pool_inv_def)
  have new: "unat base \<le> unat q" "unat q < unat base + 0x400000" "page_aligned q" if "q \<in> set (pool_list base 1024)" for q
    using that u al by (auto simp: pool_list_set pool_addr_aligned)
  have sep: "q \<notin> set ps \<union> U" if "q \<in> set (pool_list base 1024)" for q
  proof
    assume "q \<in> set ps \<union> U"
    then have "pool_page s q" using assms(1) unfolding pool_inv_def by blast
    then show False using new(1) [OF that] by (simp add: pool_page_def base_def)
  qed
  have np: "pool_page t q" if "q \<in> set (pool_list base 1024)" for q
  proof -
    have "0 < unat base" using al(2) by (simp add: unat_gt_0)
    then have "q \<noteq> 0" using new(1) [OF that] by auto
    then show ?thesis using new [OF that] un by (simp add: pool_page_def n)
  qed
  have op: "pool_page t q" if "q \<in> set ps \<union> U" for q
  proof -
    have "pool_page s q" using assms(1) that unfolding pool_inv_def by blast
    then show ?thesis using un by (simp add: pool_page_def n base_def)
  qed
  have "base + 0x400000 \<noteq> 0"
  proof
    assume "base + 0x400000 = 0"
    then have "unat (base + 0x400000) = 0" by (simp only: unat_0)
    then show False using un by simp
  qed
  moreover have "page_aligned (base + 0x400000)" using al(1) by (intro aligned_add) (simp_all add: aligned_numeral)
  moreover have "distinct (pool_list base 1024 @ ps)"
    using distinct_pool_list [of base 1024] room sep assms(1) by (auto simp: pool_inv_def)
  ultimately show "pool_inv t (pool_list base 1024 @ ps) U"
    using hl np op sep assms(1) unfolding pool_inv_def by (auto simp: n)
  show "unat (page_no x) < unat (page_no base) \<or> unat (page_no base) + 1024 \<le> unat (page_no x) \<Longrightarrow> mem t x = mem s x"
    using L(3) by (simp add: e s0_def)
  show "paging.more t = paging.more s" "io t = io s" "pmm_part t = pmm_part s"  "pmm_initialized t = pmm_initialized s"
    "total_pages_allocated t = total_pages_allocated s" "page_directories t = page_directories s"
    by (simp_all add: e t1 s0_def pmm_part_def)
qed

section \<open>Counting and double release\<close>

lemma free_list_count_eq:
  "heap_list m h ps \<Longrightarrow> n \<le> 10000 \<Longrightarrow> free_list_count m h (of_nat n) =
     (if n + length ps \<le> 10000 then Some (of_nat (n + length ps)) else None)"
proof (induction ps arbitrary: h n)
  case Nil
  then show ?case by (subst free_list_count.simps) simp
next
  case (Cons p ps)
  have s: "(of_nat n :: u32) + 1 = of_nat (Suc n)" by (simp add: add.commute)
  have g: "(of_nat (Suc n) :: u32) > 10000 \<longleftrightarrow> n = 10000"
    using Cons.prems(2) by (simp only: word_less_nat_alt unat_of_nat_small) auto
  show ?case using Cons g s by (subst free_list_count.simps) (auto simp: Let_def simp del: of_nat_Suc)
qed

lemma free_list_count_cycle: "load32 m h = h \<Longrightarrow> h \<noteq> 0 \<Longrightarrow> n \<le> 10000 \<Longrightarrow> free_list_count m h (of_nat (10000 - n)) = None"
proof (induction n)
  case 0
  then show ?case by (subst free_list_count.simps) (simp add: Let_def)
next
  case (Suc n)
  have s: "(of_nat (10000 - Suc n) :: u32) + 1 = of_nat (10000 - n)" using Suc.prems(3) by (simp add: of_nat_diff)
  have "\<not> (of_nat (10000 - n) :: u32) > 10000" by (simp add: word_less_nat_alt unat_of_nat_small)
  then show ?case using Suc s by (subst free_list_count.simps) (simp add: Let_def)
qed

text \<open>Releasing the same page twice in a row links it to itself.\<close>

lemma double_release:
  fixes s :: "'a paging_scheme"
  assumes "page_aligned p" "p \<noteq> 0"
  defines "t \<equiv> add_to_free_list p (add_to_free_list p s)"
  shows "free_list_head t = p" "load32 (mem t) p = p"
proof -
  have e: "add_to_free_list p u = u\<lparr>mem := store32 p (free_list_head u) (mem u), free_list_head := p,
      total_pages_freed := total_pages_freed u + 1\<rparr>" for u :: "'a paging_scheme"
    using assms(1,2) by (simp add: add_to_free_list_def Let_def aligned_mask)
  show "free_list_head t = p" "load32 (mem t) p = p" by (simp_all add: t_def e load32_store32)
qed

end
