(* ===== verification/Paging_Tables.thy ===== *)
theory Paging_Tables
  imports Paging_Pool
begin

text \<open>
  The page tables as a map from virtual pages to entries. A slot is one of the 2048 page
  directory entries. The invariant says that the directories and the tables of the present
  slots are distinct pages the paging code owns; installing a table and writing a leaf entry
  are the two steps \<open>map_page\<close> and \<open>unmap_page\<close> are made of.
\<close>

section \<open>Slots and leaves\<close>

definition present :: "u64 \<Rightarrow> bool" where
  "present e \<longleftrightarrow> e AND 1 \<noteq> 0"

definition slot_dir :: "'a paging_scheme \<Rightarrow> u32 \<Rightarrow> u32" where
  "slot_dir s c = page_directories s ! unat (drop_bit 9 c)"

definition pde :: "'a paging_scheme \<Rightarrow> u32 \<Rightarrow> u64" where
  "pde s c = get_entry (slot_dir s c) (take_bit 9 c) s"

definition slot_table :: "'a paging_scheme \<Rightarrow> u32 \<Rightarrow> u32" where
  "slot_table s c = entry_table (pde s c)"

text \<open>The entry of virtual page \<open>v\<close>, zero where no page table is present.\<close>

definition pte :: "'a paging_scheme \<Rightarrow> u32 \<Rightarrow> u64" where
  "pte s v = (if present (pde s (drop_bit 9 v)) then get_entry (slot_table s (drop_bit 9 v)) (take_bit 9 v) s else 0)"

definition slots :: "u32 set" where
  "slots = {c. unat c < 2048}"

lemma present_iff: "present e \<longleftrightarrow> odd e"
  by (simp add: present_def and_one_eq odd_iff_mod_2_eq_one)

lemma slot_parts: "c \<in> slots \<Longrightarrow> unat (drop_bit 9 c) < 4" "unat (take_bit 9 c :: u32) < 512"
  by (auto simp: slots_def unat_drop_bit32 unat_take_bit32)

lemma slot_eqI: "drop_bit 9 c = drop_bit 9 d \<Longrightarrow> take_bit 9 c = take_bit 9 d \<Longrightarrow> c = (d :: u32)"
  by (metis bits_ident)

lemma drop_page_no: "drop_bit 9 (page_no va) = drop_bit 21 va"
  by (simp add: page_no_def)

lemma drop_slot: "drop_bit 9 (drop_bit 21 va) = (drop_bit 30 va :: u32)"
  by simp

lemma slot_of_va: "drop_bit 9 (page_no va) \<in> slots"
proof -
  have "unat (page_no va) < 1048576" using unat32_less [of va] by (simp add: unat_page_no less_mult_imp_div_less)
  then show ?thesis by (simp add: slots_def unat_drop_bit32 less_mult_imp_div_less)
qed

text \<open>Every table the paging code has installed.\<close>

definition tables :: "'a paging_scheme \<Rightarrow> u32 set" where
  "tables s = insert (pdpt s) (set (page_directories s)) \<union> slot_table s ` {c \<in> slots. present (pde s c)}"

definition dirs_ok :: "'a paging_scheme \<Rightarrow> u32 set \<Rightarrow> bool" where
  "dirs_ok s U \<longleftrightarrow> length (page_directories s) = 4 \<and> distinct (pdpt s # page_directories s) \<and>
     insert (pdpt s) (set (page_directories s)) \<subseteq> U"

definition tables_inv :: "'a paging_scheme \<Rightarrow> u32 set \<Rightarrow> nat \<Rightarrow> bool" where
  "tables_inv s U n \<longleftrightarrow> pool_owns s U n \<and> dirs_ok s U \<and>
     (\<forall>c\<in>slots. present (pde s c) \<longrightarrow>
        slot_table s c \<in> U \<and> slot_table s c \<notin> insert (pdpt s) (set (page_directories s))) \<and>
     (\<forall>c\<in>slots. \<forall>d\<in>slots. present (pde s c) \<longrightarrow> present (pde s d) \<longrightarrow> slot_table s c = slot_table s d \<longrightarrow> c = d)"

lemma slot_dir_owned: "dirs_ok s U \<Longrightarrow> c \<in> slots \<Longrightarrow> slot_dir s c \<in> set (page_directories s) \<and> slot_dir s c \<in> U"
  using slot_parts(1) [of c] by (auto simp: slot_dir_def dirs_ok_def)

lemma slot_dir_eq:
  "dirs_ok s U \<Longrightarrow> c \<in> slots \<Longrightarrow> d \<in> slots \<Longrightarrow> slot_dir s c = slot_dir s d \<longleftrightarrow> drop_bit 9 c = drop_bit 9 d"
proof -
  assume "dirs_ok s U" "c \<in> slots" "d \<in> slots"
  then have "slot_dir s c = slot_dir s d \<longleftrightarrow> unat (drop_bit 9 c) = unat (drop_bit 9 d)"
    using slot_parts(1) by (auto simp: slot_dir_def dirs_ok_def nth_eq_iff_index_eq)
  then show ?thesis by (auto intro: word_eq_unatI)
qed

lemma table_owned: "pool_owns s U n \<Longrightarrow> q \<in> U \<Longrightarrow> page_aligned q" "pool_owns s U n \<Longrightarrow> q \<in> U \<Longrightarrow> q \<noteq> 0"
  using pool.owned by blast+

section \<open>Entries\<close>

lemma get_set_entry:
  assumes "page_aligned p" "page_aligned q" "unat i < 512" "unat j < 512"
  shows "get_entry p i (set_entry q j e s) = (if p = q \<and> i = j then e else get_entry p i s)"
proof (cases "p = q")
  case True
  then show ?thesis using assms elem8_inj [of i j q]
    by (simp add: get_entry_def set_entry_def entry_addr_def mem_simps elem8_aligned)
next
  case False
  then have "page_no (p + 8 * i) \<noteq> page_no (q + 8 * j)" using assms by (simp add: elem8_page page_no_eq)
  then show ?thesis using False assms
    by (simp add: get_entry_def set_entry_def entry_addr_def w64.ld_st_page elem8_aligned)
qed

lemma get_entry_same: "same_page p (mem s) (mem s') \<Longrightarrow> page_aligned p \<Longrightarrow> unat i < 512 \<Longrightarrow> get_entry p i s' = get_entry p i s"
  by (simp add: get_entry_def entry_addr_def same_page_load64)

lemma set_entry_fields [simp]:
  "page_directories (set_entry p i e s) = page_directories s" "pdpt (set_entry p i e s) = pdpt s"
  "free_list_head (set_entry p i e s) = free_list_head s" "next_free_page (set_entry p i e s) = next_free_page s"
  "total_pages_allocated (set_entry p i e s) = total_pages_allocated s"
  "total_pages_freed (set_entry p i e s) = total_pages_freed s" "io (set_entry p i e s) = io s" "kout (set_entry p i e s) = kout s"
  by (simp_all add: set_entry_def)

lemma set_entry_owns: "pool_owns s U n \<Longrightarrow> q \<in> U \<Longrightarrow> unat j < 512 \<Longrightarrow> pool_owns (set_entry q j e s) U n"
  using pool.write_entry [of s U n q j e] by (simp add: set_entry_def entry_addr_def)

lemma set_entry_same_page:
  "page_aligned q \<Longrightarrow> page_aligned p \<Longrightarrow> q \<noteq> p \<Longrightarrow> unat j < 512 \<Longrightarrow> same_page q (mem s) (mem (set_entry p j e s))"
  by (simp add: set_entry_def entry_addr_def same_page_store64)

lemma entry_table_of: "page_aligned p \<Longrightarrow> entry_table (ucast p OR e AND 0xFFF) = p"
proof (rule bit_word_eqI)
  fix n assume p: "page_aligned p" and n: "n < LENGTH(32)"
  have low: "n < 12 \<Longrightarrow> \<not> bit p n"
  proof -
    assume "n < 12"
    have "bit (take_bit 12 p) n \<longleftrightarrow> bit p n" using \<open>n < 12\<close> by (simp add: bit_take_bit_iff)
    then show "\<not> bit p n" using p by (simp add: aligned_def)
  qed
  have m1: "(0xFFFFF000 :: u64) = push_bit 12 (mask 20)" by (simp add: mask_eq_exp_minus_1 push_bit_eq_mult)
  have m2: "(0xFFF :: u64) = mask 12" by (simp add: mask_eq_exp_minus_1)
  show "bit (entry_table (ucast p OR e AND 0xFFF)) n = bit p n"
    unfolding entry_table_def m1 m2 using n low by (cases "n < 12") (auto simp: bit_simps)
qed

section \<open>Installing a page table\<close>

text \<open>The entry the code builds for a new table.\<close>

definition pde_for :: "u32 \<Rightarrow> u32 \<Rightarrow> u64" where
  "pde_for pt flags = ucast pt OR ucast PAGE_PRESENT OR ucast PAGE_WRITABLE OR ucast (flags AND PAGE_USER)"

lemma pde_for_low: "pde_for pt flags = ucast pt OR (3 OR ucast (flags AND 4)) AND 0xFFF"
proof -
  have "(ucast (flags AND 4) :: u64) AND 0xFFF = ucast (flags AND 4)"
  proof -
    have m: "(0xFFF :: u64) = mask 12" by (simp add: mask_eq_exp_minus_1)
    have four: "bit (4 :: u32) n \<longleftrightarrow> n = 2" for n using bit_one_at [of 2 n] by auto
    show ?thesis unfolding m
      by (rule bit_word_eqI) (auto simp only: bit_and_iff bit_unsigned_iff bit_mask_iff four)
  qed
  then have "(3 OR ucast (flags AND 4)) AND 0xFFF = (3 OR ucast (flags AND 4) :: u64)"
    by (simp add: and.commute [of _ "0xFFF"] bit.conj_disj_distrib)
  moreover have "(1 :: u64) OR (2 OR x) = 3 OR x" for x by (simp flip: or.assoc)
  ultimately show ?thesis by (simp add: pde_for_def or.assoc)
qed

lemma pde_for_table: "page_aligned pt \<Longrightarrow> entry_table (pde_for pt flags) = pt"
  unfolding pde_for_low by (rule entry_table_of)

lemma pde_for_present: "present (pde_for pt flags)"
proof -
  have "bit (pde_for pt flags) 0" by (simp add: pde_for_def bit_simps)
  then show ?thesis by (simp add: present_iff bit_0)
qed

end
