(* ===== verification/Paging_Map.thy ===== *)
theory Paging_Map
  imports Paging_Tables
begin

text \<open>
  The operations on page tables as updates of the map from virtual pages to entries:
  installing a table, writing a leaf, and from these \<open>map_page\<close>, \<open>unmap_page\<close> and
  \<open>get_physical_addr\<close>.
\<close>

section \<open>What the invariant gives\<close>

lemma inv_dirs: "tables_inv s U n \<Longrightarrow> dirs_ok s U" "tables_inv s U n \<Longrightarrow> pool_owns s U n"
  by (simp_all add: tables_inv_def)

lemma inv_table:
  "tables_inv s U n \<Longrightarrow> c \<in> slots \<Longrightarrow> present (pde s c) \<Longrightarrow>
   slot_table s c \<in> U \<and> slot_table s c \<notin> insert (pdpt s) (set (page_directories s))"
  by (simp add: tables_inv_def)

lemma inv_inj:
  "tables_inv s U n \<Longrightarrow> c \<in> slots \<Longrightarrow> d \<in> slots \<Longrightarrow> present (pde s c) \<Longrightarrow> present (pde s d) \<Longrightarrow>
   slot_table s c = slot_table s d \<Longrightarrow> c = d"
  by (simp add: tables_inv_def)

lemma inv_dir: "tables_inv s U n \<Longrightarrow> c \<in> slots \<Longrightarrow> slot_dir s c \<in> set (page_directories s) \<and> slot_dir s c \<in> U"
  using inv_dirs(1) slot_dir_owned by blast

lemma inv_aligned: "tables_inv s U n \<Longrightarrow> q \<in> U \<Longrightarrow> page_aligned q"
  using inv_dirs(2) table_owned(1) by blast

lemma inv_tables_owned: "tables_inv s U n \<Longrightarrow> tables s \<subseteq> U"
  by (auto simp: tables_inv_def tables_def dirs_ok_def)

lemma inv_weaken: "tables_inv s U n \<Longrightarrow> m \<le> n \<Longrightarrow> tables_inv s U m"
  by (auto simp: tables_inv_def pool_owns_def)

section \<open>Writing a leaf\<close>

lemma leaf_write:
  fixes e :: u64
  assumes inv: "tables_inv s U n" and c: "c \<in> slots" "present (pde s c)" and j: "unat j < 512"
  defines "t \<equiv> set_entry (slot_table s c) j e s"
  shows "tables_inv t U n" "d \<in> slots \<Longrightarrow> pde t d = pde s d"
    "drop_bit 9 v \<in> slots \<Longrightarrow> pte t v = (if drop_bit 9 v = c \<and> take_bit 9 v = j then e else pte s v)"
    "q \<in> U \<Longrightarrow> q \<notin> tables s \<Longrightarrow> same_page q (mem s) (mem t)" "same_page (pdpt s) (mem s) (mem t)"
proof -
  note T = inv_table [OF inv c]
  have al: "page_aligned (slot_table s c)" using inv_aligned [OF inv] T by blast
  have pde: "pde t d = pde s d" if d: "d \<in> slots" for d
  proof -
    note D = inv_dir [OF inv d]
    have "slot_dir s d \<noteq> slot_table s c" "page_aligned (slot_dir s d)" using D T inv_aligned [OF inv] by auto
    moreover have "slot_dir t d = slot_dir s d" by (simp add: slot_dir_def t_def)
    ultimately show ?thesis using al j slot_parts(2) [of d] by (simp add: pde_def t_def get_set_entry)
  qed
  then show "d \<in> slots \<Longrightarrow> pde t d = pde s d" by blast
  have st: "slot_table t d = slot_table s d" if "d \<in> slots" for d using pde [OF that] by (simp add: slot_table_def)
  have owns: "pool_owns t U n" unfolding t_def using inv_dirs(2) [OF inv] T j by (intro set_entry_owns) auto
  have f: "page_directories t = page_directories s" "pdpt t = pdpt s" by (simp_all add: t_def)
  have "dirs_ok t U" using inv_dirs(1) [OF inv] by (simp add: dirs_ok_def f)
  then show "tables_inv t U n" using inv owns pde st by (simp add: tables_inv_def f)
  show "pte t v = (if drop_bit 9 v = c \<and> take_bit 9 v = j then e else pte s v)" if v: "drop_bit 9 v \<in> slots" for v
  proof (cases "present (pde s (drop_bit 9 v))")
    case True
    note V = inv_table [OF inv v True]
    have "page_aligned (slot_table s (drop_bit 9 v))" using inv_aligned [OF inv] V by blast
    moreover have "slot_table s (drop_bit 9 v) = slot_table s c \<longleftrightarrow> drop_bit 9 v = c"
      using inv_inj [OF inv v c(1) True c(2)] by blast
    moreover have "unat (take_bit 9 v :: u32) < 512" by (simp add: unat_take_bit32)
    ultimately show ?thesis using True al j pde [OF v] st [OF v] by (simp add: pte_def t_def get_set_entry)
  next
    case False
    then have "drop_bit 9 v \<noteq> c" using c(2) by auto
    then show ?thesis using False pde [OF v] by (simp add: pte_def)
  qed
  have keep: "same_page q (mem s) (mem t)" if "q \<in> U" "q \<noteq> slot_table s c" for q
    unfolding t_def using that al j inv_aligned [OF inv that(1)] by (intro set_entry_same_page)
  show "same_page (pdpt s) (mem s) (mem t)" using T inv_dirs(1) [OF inv] by (intro keep) (auto simp: dirs_ok_def)
  assume q: "q \<in> U" "q \<notin> tables s"
  then have "q \<noteq> slot_table s c" using c by (auto simp: tables_def)
  then show "same_page q (mem s) (mem t)" using keep q(1) by blast
qed

section \<open>Installing a table\<close>

lemma install_table:
  fixes flags :: u32
  assumes inv: "tables_inv s U (Suc n)" and c: "c \<in> slots" "\<not> present (pde s c)"
    and a: "allocate_from_free_list s = (p, s1)"
  defines "t \<equiv> set_entry (slot_dir s1 c) (take_bit 9 c) (pde_for p flags) s1"
  shows "tables_inv t (insert p U) n" "p \<notin> U" "page_directories t = page_directories s" "pdpt t = pdpt s"
    "d \<in> slots \<Longrightarrow> pde t d = (if d = c then pde_for p flags else pde s d)" "slot_table t c = p"
    "drop_bit 9 v \<in> slots \<Longrightarrow> pte t v = pte s v"
    "q \<in> U \<Longrightarrow> q \<notin> tables s \<Longrightarrow> same_page q (mem s) (mem t)" "same_page (pdpt s) (mem s) (mem t)"
proof -
  note A = pool_alloc [OF inv_dirs(2) [OF inv] a]
  have f1: "page_directories s1 = page_directories s" "pdpt s1 = pdpt s"
    using a by (auto simp: allocate_from_free_list_def Let_def split: if_splits)
  show f: "page_directories t = page_directories s" "pdpt t = pdpt s" by (simp_all add: t_def f1)
  show new: "p \<notin> U" using A(1) by blast
  have o1: "pool_owns s1 (insert p U) n" using A(1) by blast
  have dir: "slot_dir s1 d = slot_dir s d" "slot_dir t d = slot_dir s d" for d by (simp_all add: slot_dir_def f f1)
  have k: "unat (take_bit 9 d :: u32) < 512" for d by (simp add: unat_take_bit32)
  note C = inv_dir [OF inv c(1)]
  have alc: "page_aligned (slot_dir s c)" using C inv_aligned [OF inv] by blast
  have keep1: "same_page q (mem s) (mem s1)" if "q \<in> U" for q
    using pool.alloc_frame [OF inv_dirs(2) [OF inv] a that] .
  have keep: "same_page q (mem s) (mem t)" if "q \<in> U" "q \<noteq> slot_dir s c" for q
    using keep1 [OF that(1)] set_entry_same_page [OF inv_aligned [OF inv that(1)] alc that(2) k, of s1 c "pde_for p flags"]
    by (auto simp: t_def dir intro: same_page_trans)
  have owns: "pool_owns t (insert p U) n" unfolding t_def dir using o1 C k by (intro set_entry_owns) auto
  have pde: "pde t d = (if d = c then pde_for p flags else pde s d)" if d: "d \<in> slots" for d
  proof -
    note D = inv_dir [OF inv d]
    have ald: "page_aligned (slot_dir s d)" using D inv_aligned [OF inv] by blast
    have "slot_dir s d = slot_dir s c \<and> take_bit 9 d = take_bit 9 c \<longleftrightarrow> d = c"
      using slot_dir_eq [OF inv_dirs(1) [OF inv] d c(1)] slot_eqI [of d c] by blast
    moreover have "get_entry (slot_dir s d) (take_bit 9 d) s1 = get_entry (slot_dir s d) (take_bit 9 d) s"
      using keep1 D ald k by (intro get_entry_same) auto
    ultimately show ?thesis using ald alc k by (simp add: pde_def t_def dir get_set_entry f1 slot_dir_def [of "set_entry _ _ _ _"] flip: slot_dir_def)
  qed
  then show "d \<in> slots \<Longrightarrow> pde t d = (if d = c then pde_for p flags else pde s d)" by blast
  have stc: "slot_table t c = p" using pde [OF c(1)] A(2) by (simp add: slot_table_def pde_for_table)
  then show "slot_table t c = p" .
  have std: "slot_table t d = slot_table s d" if "d \<in> slots" "d \<noteq> c" for d
    using pde [OF that(1)] that(2) by (simp add: slot_table_def)
  have dirs: "dirs_ok t (insert p U)" using inv_dirs(1) [OF inv] by (auto simp: dirs_ok_def f)
  have pnd: "p \<notin> insert (pdpt s) (set (page_directories s))"
    using new inv_dirs(1) [OF inv] by (auto simp: dirs_ok_def)
  have one: "slot_table t d \<in> insert p U \<and> slot_table t d \<notin> insert (pdpt s) (set (page_directories s))"
    if "d \<in> slots" "present (pde t d)" for d
    using that pde [OF that(1)] stc std [OF that(1)] inv_table [OF inv that(1)] pnd by (cases "d = c") auto
  have two: "d = e" if "d \<in> slots" "e \<in> slots" "present (pde t d)" "present (pde t e)" "slot_table t d = slot_table t e" for d e
  proof (rule ccontr)
    assume ne: "d \<noteq> e"
    have U: "slot_table t x \<in> U" if "x \<in> slots" "x \<noteq> c" "present (pde t x)" for x
      using inv_table [OF inv that(1)] std [OF that(1,2)] pde [OF that(1)] that by auto
    show False
    proof (cases "d = c \<or> e = c")
      case True
      then show False using ne U [of d] U [of e] that stc new by auto
    next
      case False
      then show False using inv_inj [OF inv that(1,2)] that ne pde std by auto
    qed
  qed
  show "tables_inv t (insert p U) n" unfolding tables_inv_def f using owns dirs one two by blast
  show "pte t v = pte s v" if v: "drop_bit 9 v \<in> slots" for v
  proof (cases "drop_bit 9 v = c")
    case True
    have "p \<noteq> slot_dir s c" using new C by blast
    then have "same_page p (mem s1) (mem t)"
      using set_entry_same_page [OF A(2) alc _ k, of s1 c "pde_for p flags"] by (simp add: t_def dir)
    then have "get_entry p (take_bit 9 v) t = get_entry p (take_bit 9 v) s1" using A(2) k by (intro get_entry_same)
    also have "\<dots> = 0" using pool.fresh_entry [OF inv_dirs(2) [OF inv] a k] by (simp add: get_entry_def entry_addr_def)
    finally have "get_entry p (take_bit 9 v) t = 0" .
    then show ?thesis using True stc c(2) by (simp add: pte_def)
  next
    case False
    show ?thesis
    proof (cases "present (pde s (drop_bit 9 v))")
      case True
      note V = inv_table [OF inv v True]
      then have "slot_table s (drop_bit 9 v) \<noteq> slot_dir s c" using C by auto
      then have "same_page (slot_table s (drop_bit 9 v)) (mem s) (mem t)" using keep V by blast
      then have "get_entry (slot_table s (drop_bit 9 v)) (take_bit 9 v) t = get_entry (slot_table s (drop_bit 9 v)) (take_bit 9 v) s"
        using V inv_aligned [OF inv] k by (intro get_entry_same) auto
      then show ?thesis using False std [OF v] pde [OF v] by (simp add: pte_def)
    qed (use False pde [OF v] in \<open>simp add: pte_def\<close>)
  qed
  show "same_page (pdpt s) (mem s) (mem t)" using C inv_dirs(1) [OF inv] by (intro keep) (auto simp: dirs_ok_def)
  assume "q \<in> U" "q \<notin> tables s"
  moreover have "slot_dir s c \<in> tables s" using C by (simp add: tables_def)
  ultimately show "same_page q (mem s) (mem t)" using keep by blast
qed

end
