(* ===== verification/Paging_Ops.thy ===== *)
theory Paging_Ops
  imports Paging_Map
begin

text \<open>
  The operations of the paging code over the map of leaves: mapping, unmapping, looking up,
  and the loops that map ranges onto themselves.
\<close>

section \<open>The operations in terms of slots\<close>

lemma va_dir: "page_directory (virtual_addr va) s = slot_dir s (drop_bit 21 va)"
  by (simp add: page_directory_def virtual_addr_def slot_dir_def)

lemma va_pde: "get_entry (page_directory (virtual_addr va) s) (pd_index (virtual_addr va)) s = pde s (drop_bit 21 va)"
  unfolding va_dir by (simp add: pde_def virtual_addr_def)

lemma va_pt_index: "pt_index (virtual_addr va) = take_bit 9 (page_no va)"
  by (simp add: virtual_addr_def page_no_def)

lemma va_pd_index: "pd_index (virtual_addr va) = take_bit 9 (drop_bit 21 va)"
  by (simp add: virtual_addr_def)

lemma va_slot: "drop_bit 21 va \<in> slots"
  using slot_of_va [of va] by (simp only: drop_page_no)

lemma unat_take9: "unat (take_bit 9 v :: u32) < 512"
  by (simp add: unat_take_bit32)

lemma va_dir_nonnull: "tables_inv s U n \<Longrightarrow> page_directory (virtual_addr va) s \<noteq> 0"
  unfolding va_dir using inv_dir [OF _ va_slot] table_owned(2) [OF inv_dirs(2)] by blast

lemma not_present: "e AND ucast (1 :: u32) = 0 \<longleftrightarrow> \<not> present e"
  by (simp add: present_def)

text \<open>The table of the slot, installed when there is none.\<close>

definition ensure_table :: "u32 \<Rightarrow> u32 \<Rightarrow> 'a paging_scheme \<Rightarrow> 'a paging_scheme" where
  "ensure_table c flags s =
     (if present (pde s c) then s
      else (let (pt, s1) = allocate_from_free_list s
            in set_entry (slot_dir s1 c) (take_bit 9 c) (pde_for pt flags) s1))"

lemma alloc_dirs: "allocate_from_free_list s = (p, s1) \<Longrightarrow> page_directories s1 = page_directories s"
  "allocate_from_free_list s = (p, s1) \<Longrightarrow> pdpt s1 = pdpt s"
  "allocate_from_free_list s = (p, s1) \<Longrightarrow> kout s1 = kout s"
  "allocate_from_free_list s = (p, s1) \<Longrightarrow> io s1 = io s"
  by (auto simp: allocate_from_free_list_def Let_def split: if_splits)

lemma map_page_eq:
  fixes va flags :: u32
  assumes "tables_inv s U n"
  defines "t \<equiv> ensure_table (drop_bit 21 va) flags s"
  shows "map_page va pa flags s =
    (0, hw (Invlpg va) (set_entry (slot_table t (drop_bit 21 va)) (take_bit 9 (page_no va)) (pa OR ucast flags) t))"
proof -
  have pd: "page_directories t = page_directories s"
    unfolding t_def ensure_table_def by (auto split: prod.split dest: alloc_dirs(1))
  then have d: "slot_dir t c = slot_dir s c" for c by (simp add: slot_dir_def)
  have e: "t = (if get_entry (page_directory (virtual_addr va) s) (pd_index (virtual_addr va)) s AND ucast PAGE_PRESENT = 0
     then (let (pt, s1) = allocate_from_free_list s
           in set_entry (page_directory (virtual_addr va) s) (pd_index (virtual_addr va))
             (ucast pt OR ucast PAGE_PRESENT OR ucast PAGE_WRITABLE OR ucast (flags AND PAGE_USER)) s1) else s)"
  proof -
    have "slot_dir s1 c = slot_dir s c" if "allocate_from_free_list s = (p, s1)" for p s1 c
      using alloc_dirs(1) [OF that] by (simp add: slot_dir_def)
    then show ?thesis unfolding t_def ensure_table_def va_pde not_present pde_for_def
      unfolding va_dir va_pd_index by (auto split: prod.split)
  qed
  have g: "get_entry (page_directory (virtual_addr va) s) (pd_index (virtual_addr va)) t = pde t (drop_bit 21 va)"
    by (simp only: pde_def d va_dir) (simp add: virtual_addr_def)
  show ?thesis unfolding map_page_def Let_def e [unfolded Let_def, symmetric]
    using va_dir_nonnull [OF assms(1), of va] by (simp add: g va_pt_index slot_table_def)
qed

lemma tables_inv_hw [simp]: "tables_inv (hw e s) U n = tables_inv s U n" "pte (hw e s) v = pte s v" "pde (hw e s) c = pde s c"
  by (simp_all add: tables_inv_def pool_owns_def pool_inv_def pool_page_def bump_room_def dirs_ok_def pte_def pde_def
      slot_dir_def slot_table_def get_entry_def)

text \<open>
  What such a step does: at most one page becomes owned, only when the slot had no table; all
  leaves but those \<open>f\<close> changes are kept, and so is every owned page that is no table.
\<close>

definition table_entry :: "u64 \<Rightarrow> bool" where
  "table_entry e \<longleftrightarrow> (\<exists>pt flags. page_aligned pt \<and> e = pde_for pt flags)"

definition table_step :: "u32 \<Rightarrow> (u32 \<Rightarrow> u64 \<Rightarrow> u64) \<Rightarrow> 'a paging_scheme \<Rightarrow> u32 set \<Rightarrow> nat \<Rightarrow>
    'a paging_scheme \<Rightarrow> u32 set \<Rightarrow> bool" where
  "table_step c f s U n s' U' \<longleftrightarrow>
     tables_inv s' U' (if present (pde s c) then Suc n else n) \<and> U \<subseteq> U' \<and>
     (\<forall>d\<in>slots. present (pde s' d) \<longleftrightarrow> d = c \<or> present (pde s d)) \<and>
     (\<forall>v. drop_bit 9 v \<in> slots \<longrightarrow> pte s' v = f v (pte s v)) \<and>
     (\<forall>q\<in>U. q \<notin> tables s \<longrightarrow> same_page q (mem s) (mem s') \<and> q \<notin> tables s') \<and>
     (\<forall>d\<in>slots. pde s' d = pde s d \<or> table_entry (pde s' d)) \<and> same_page (pdpt s) (mem s) (mem s') \<and>
     kout s' = kout s \<and> page_directories s' = page_directories s \<and> pdpt s' = pdpt s"

lemma ensure_table_step:
  assumes inv: "tables_inv s U (Suc n)" and c: "c \<in> slots"
  shows "\<exists>U'. table_step c (\<lambda>v e. e) s U n (ensure_table c flags s) U'" "io (ensure_table c flags s) = io s"
proof -
  show "io (ensure_table c flags s) = io s"
    by (auto simp: ensure_table_def alloc_dirs(4) split: prod.split)
  show "\<exists>U'. table_step c (\<lambda>v e. e) s U n (ensure_table c flags s) U'"
  proof (cases "present (pde s c)")
    case True
    then have "table_step c (\<lambda>v e. e) s U n (ensure_table c flags s) U"
      using inv c by (auto simp: table_step_def ensure_table_def)
    then show ?thesis by blast
  next
    case False
    obtain p s1 where a: "allocate_from_free_list s = (p, s1)" by fastforce
    define t where "t = set_entry (slot_dir s1 c) (take_bit 9 c) (pde_for p flags) s1"
    have e: "ensure_table c flags s = t" using False a by (simp add: t_def ensure_table_def)
    have I: "tables_inv t (insert p U) n" "p \<notin> U" "page_directories t = page_directories s" "pdpt t = pdpt s"
      "slot_table t c = p" unfolding t_def by (rule install_table(1-4,6) [OF inv c False a])+
    have pde: "d \<in> slots \<Longrightarrow> pde t d = (if d = c then pde_for p flags else pde s d)" for d
      unfolding t_def by (rule install_table(5) [OF inv c False a])
    have pte: "drop_bit 9 v \<in> slots \<Longrightarrow> pte t v = pte s v" for v
      unfolding t_def by (rule install_table(7) [OF inv c False a])
    have keep: "q \<in> U \<Longrightarrow> q \<notin> tables s \<Longrightarrow> same_page q (mem s) (mem t)" for q
      unfolding t_def by (rule install_table(8) [OF inv c False a])
    have "q \<notin> tables t" if "q \<in> U" "q \<notin> tables s" for q
    proof
      assume "q \<in> tables t"
      then consider "q \<in> insert (pdpt s) (set (page_directories s))" | d where "q = slot_table t d" "d \<in> slots" "present (pde t d)"
        using I(3,4) by (auto simp: tables_def)
      then show False
      proof cases
        case 2
        then show ?thesis using that I(2,5) pde by (cases "d = c") (auto simp: tables_def slot_table_def)
      qed (use that in \<open>simp add: tables_def\<close>)
    qed
    moreover have "kout t = kout s" using alloc_dirs(3) [OF a] by (simp add: t_def)
    moreover have "same_page (pdpt s) (mem s) (mem t)"
      unfolding t_def by (rule install_table(9) [OF inv c False a])
    moreover have "table_entry (pde_for p flags)"
      using pool_alloc(2) [OF inv_dirs(2) [OF inv] a] by (auto simp: table_entry_def)
    ultimately have "table_step c (\<lambda>v e. e) s U n t (insert p U)"
      using I False pde pte keep c by (auto simp: table_step_def pde_for_present)
    then show ?thesis unfolding e by blast
  qed
qed

lemma tables_set_entry:
  assumes "tables_inv s U n" "c \<in> slots" "present (pde s c)" "unat j < 512"
  shows "tables (set_entry (slot_table s c) j e s) = tables s"
proof -
  have "pde (set_entry (slot_table s c) j e s) d = pde s d" if "d \<in> slots" for d
    using that by (rule leaf_write(2) [OF assms])
  then have "{d \<in> slots. present (pde (set_entry (slot_table s c) j e s) d)} = {d \<in> slots. present (pde s d)}"
    "slot_table (set_entry (slot_table s c) j e s) ` {d \<in> slots. present (pde s d)} =
     slot_table s ` {d \<in> slots. present (pde s d)}"
    by (auto simp: slot_table_def intro!: image_cong)
  then show ?thesis unfolding tables_def by simp
qed

text \<open>One call of \<open>map_page\<close>.\<close>

lemma map_page_step:
  assumes inv: "tables_inv s U (Suc n)" and call: "map_page va pa flags s = (r, s')"
  shows "r = 0" "io s' = io s @ [Invlpg va]"
    "\<exists>U'. table_step (drop_bit 21 va) (\<lambda>v e. if v = page_no va then pa OR ucast flags else e) s U n s' U'"
proof -
  define c where "c = drop_bit 21 va"
  define t where "t = ensure_table c flags s"
  have c: "c \<in> slots" by (simp add: c_def va_slot)
  obtain U' where E: "table_step c (\<lambda>v e. e) s U n t U'" using ensure_table_step(1) [OF inv c] unfolding t_def by blast
  then have ti: "tables_inv t U' (if present (pde s c) then Suc n else n)" and pt: "present (pde t c)"
    using c by (simp_all add: table_step_def)
  define u where "u = set_entry (slot_table t c) (take_bit 9 (page_no va)) (pa OR ucast flags) t"
  note L0 = leaf_write [OF ti c pt unat_take9]
  have L: "tables_inv u U' (if present (pde s c) then Suc n else n)" unfolding u_def by (rule L0(1))
  have L2: "d \<in> slots \<Longrightarrow> pde u d = pde t d" for d unfolding u_def by (rule L0(2))
  have L3: "drop_bit 9 v \<in> slots \<Longrightarrow> pte u v = (if drop_bit 9 v = c \<and> take_bit 9 v = take_bit 9 (page_no va)
      then pa OR ucast flags else pte t v)" for v unfolding u_def by (rule L0(3))
  have L4: "q \<in> U' \<Longrightarrow> q \<notin> tables t \<Longrightarrow> same_page q (mem t) (mem u)" for q unfolding u_def by (rule L0(4))
  have L5: "same_page (pdpt t) (mem t) (mem u)" unfolding u_def by (rule L0(5))
  have s': "r = 0" "s' = hw (Invlpg va) u" using call map_page_eq [OF inv, of va pa flags] by (simp_all add: u_def t_def c_def)
  show "r = 0" by (rule s')
  show "io s' = io s @ [Invlpg va]" using ensure_table_step(2) [OF inv c, of flags] by (simp add: s' u_def t_def)
  have v: "drop_bit 9 v = c \<and> take_bit 9 v = take_bit 9 (page_no va) \<longleftrightarrow> v = page_no va" for v
    using slot_eqI [of v "page_no va"] by (auto simp: c_def drop_page_no [symmetric])
  have tu: "tables (hw (Invlpg va) u) = tables t"
    using tables_set_entry [OF ti c pt unat_take9] by (simp add: u_def tables_def slot_table_def)
  have "same_page q (mem s) (mem u) \<and> q \<notin> tables (hw (Invlpg va) u)" if "q \<in> U" "q \<notin> tables s" for q
  proof -
    have "same_page q (mem s) (mem t)" "q \<notin> tables t" "q \<in> U'" using E that by (auto simp: table_step_def)
    then show ?thesis using L4 [of q] unfolding tu by (blast intro: same_page_trans)
  qed
  moreover have "same_page (pdpt s) (mem s) (mem u)"
    using E L5 by (auto simp: table_step_def intro: same_page_trans)
  moreover have "kout u = kout t" "page_directories u = page_directories t" "pdpt u = pdpt t" by (simp_all add: u_def)
  ultimately have "table_step c (\<lambda>v e. if v = page_no va then pa OR ucast flags else e) s U n s' U'"
    using E L L2 L3 v unfolding table_step_def s' by simp
  then show "\<exists>U'. table_step (drop_bit 21 va) (\<lambda>v e. if v = page_no va then pa OR ucast flags else e) s U n s' U'"
    unfolding c_def by blast
qed

end
