(* ===== verification/Paging_Setup.thy ===== *)
theory Paging_Setup
  imports Paging_Ops
begin

text \<open>
  Unmapping and looking up, the loops that map a range onto itself, and the state
  \<open>paging_init\<close> and \<open>setup_identity_mapping\<close> establish.
\<close>

section \<open>Unmapping and looking up\<close>

lemma get_physical_addr_eq:
  assumes "tables_inv s U n"
  shows "get_physical_addr va s =
    (if present (pte s (page_no va)) then (pte s (page_no va) AND 0xFFFFF000) OR ucast (take_bit 12 va) else 0)"
proof -
  have "offset (virtual_addr va) = take_bit 12 va" by (simp add: virtual_addr_def)
  moreover have "\<not> present 0" by (simp add: present_def)
  ultimately show ?thesis using va_dir_nonnull [OF assms, of va]
    unfolding get_physical_addr_def Let_def va_pde va_pt_index not_present pte_def drop_page_no slot_table_def by simp
qed

lemma unmap_page_eq:
  assumes "tables_inv s U n"
  shows "unmap_page va s = (if present (pde s (drop_bit 21 va))
    then (0, hw (Invlpg va) (set_entry (slot_table s (drop_bit 21 va)) (take_bit 9 (page_no va)) 0 s)) else (- 1, s))"
  using va_dir_nonnull [OF assms, of va]
  unfolding unmap_page_def Let_def va_pde va_pt_index not_present slot_table_def by simp

lemma unmap_page_step:
  assumes inv: "tables_inv s U n" and p: "present (pde s (drop_bit 21 va))" and call: "unmap_page va s = (r, s')"
  shows "r = 0" "tables_inv s' U n" "io s' = io s @ [Invlpg va]"
    "drop_bit 9 v \<in> slots \<Longrightarrow> pte s' v = (if v = page_no va then 0 else pte s v)"
    "q \<in> U \<Longrightarrow> q \<notin> tables s \<Longrightarrow> same_page q (mem s) (mem s')"
proof -
  define u where "u = set_entry (slot_table s (drop_bit 21 va)) (take_bit 9 (page_no va)) 0 s"
  have s': "r = 0" "s' = hw (Invlpg va) u" using call unmap_page_eq [OF inv, of va] p by (simp_all add: u_def)
  note L = leaf_write [OF inv va_slot p unat_take9]
  have v: "drop_bit 9 v = drop_bit 21 va \<and> take_bit 9 v = take_bit 9 (page_no va) \<longleftrightarrow> v = page_no va"
    using slot_eqI [of v "page_no va"] by (auto simp: drop_page_no [symmetric])
  show "r = 0" by (rule s')
  show "io s' = io s @ [Invlpg va]" by (simp add: s' u_def)
  show "tables_inv s' U n" unfolding s' tables_inv_hw u_def by (rule L(1))
  show "pte s' v = (if v = page_no va then 0 else pte s v)" if "drop_bit 9 v \<in> slots"
    unfolding s' tables_inv_hw u_def using L(3) [OF that] v by simp
  show "same_page q (mem s) (mem s')" if "q \<in> U" "q \<notin> tables s"
    unfolding s' hw_fields u_def by (rule L(4) [OF that])
qed

section \<open>Mapping a range onto itself\<close>

definition identity_pte :: "u32 \<Rightarrow> u64" where
  "identity_pte v = ucast (push_bit 12 v) OR 3"

text \<open>How many page tables the first \<open>k\<close> pages need.\<close>

definition tables_for :: "nat \<Rightarrow> nat" where
  "tables_for k = (k + 511) div 512"

lemma page_no_of_nat: "k < 1048576 \<Longrightarrow> page_no (of_nat k * 4096) = of_nat k"
proof -
  assume "k < 1048576"
  then have "unat (of_nat k * 4096 :: u32) = k * 4096" by (simp add: unat_word_ariths unat_of_nat)
  then have "unat (page_no (of_nat k * 4096)) = k" by (simp add: unat_page_no)
  then show ?thesis using \<open>k < 1048576\<close> by (intro word_eq_unatI) (simp add: unat_of_nat_small)
qed

lemma push_page: "unat v < 1048576 \<Longrightarrow> push_bit 12 v = v * 4096" for v :: u32
  by (simp add: push_bit_eq_mult)

lemma map_identity_step:
  assumes inv: "tables_inv s U (Suc n)" and k: "k < 1048576"
  shows "io (map_identity (of_nat k * 4096) s) = io s @ [Invlpg (of_nat k * 4096)]"
    "\<exists>U'. table_step (of_nat (k div 512)) (\<lambda>v e. if v = of_nat k then identity_pte v else e) s U n (map_identity (of_nat k * 4096) s) U'"
proof -
  obtain r s' where c: "map_page (of_nat k * 4096) (ucast (of_nat k * 4096 :: u32)) (1 OR 2) s = (r, s')" by fastforce
  then have s': "map_identity (of_nat k * 4096) s = s'" by (simp add: map_identity_def)
  note M = map_page_step [OF inv c]
  have pn: "page_no (of_nat k * 4096) = of_nat k" using k by (rule page_no_of_nat)
  have uk: "unat (of_nat k :: u32) = k" using k by (simp add: unat_of_nat_small)
  have "drop_bit 21 (of_nat k * 4096 :: u32) = drop_bit 9 (of_nat k)" using drop_page_no [of "of_nat k * 4096"] pn by simp
  also have "\<dots> = of_nat (k div 512)" using uk k by (intro word_eq_unatI) (simp add: unat_drop_bit32 unat_of_nat_small)
  finally have sl: "drop_bit 21 (of_nat k * 4096 :: u32) = of_nat (k div 512)" .
  have "ucast (of_nat k * 4096 :: u32) OR ucast (1 OR 2 :: u32) = identity_pte (of_nat k)"
    using push_page [of "of_nat k"] uk k by (simp add: identity_pte_def)
  then have f: "(\<lambda>v e. if v = page_no (of_nat k * 4096) then ucast (of_nat k * 4096 :: u32) OR ucast (1 OR 2 :: u32) else e) =
      (\<lambda>v e. if v = of_nat k then identity_pte v else e)" by (auto simp: pn fun_eq_iff)
  show "io (map_identity (of_nat k * 4096) s) = io s @ [Invlpg (of_nat k * 4096)]" using M(2) by (simp add: s')
  show "\<exists>U'. table_step (of_nat (k div 512)) (\<lambda>v e. if v = of_nat k then identity_pte v else e) s U n (map_identity (of_nat k * 4096) s) U'"
    using M(3) unfolding sl f s' .
qed

lemma tables_for_step: "tables_for (Suc k) = (if k mod 512 = 0 then Suc (tables_for k) else tables_for k)"
proof -
  define q r where "q = k div 512" and "r = k mod 512"
  have k: "k = q * 512 + r" and r: "r < 512" by (simp_all add: q_def r_def)
  have "(k + 511) div 512 = q + (if r = 0 then 0 else 1)"
    using r by (cases "r = 0") (simp_all add: k add.assoc div_add1_eq [of _ "r + 511"] le_div_geq)
  moreover have "(Suc k + 511) div 512 = Suc q" using r by (simp add: k)
  ultimately show ?thesis by (simp add: tables_for_def r_def)
qed

text \<open>From no mapping at all: \<open>k\<close> pages from address 0.\<close>

lemma identity_loop:
  fixes s :: "'a paging_scheme"
  assumes inv: "tables_inv s U (Suc (tables_for N + n))" and none: "\<forall>c\<in>slots. \<not> present (pde s c)" and N: "N < 1048576"
  defines "t \<equiv> fold (\<lambda>k. map_identity (of_nat k * 4096)) [0..<N] s"
  shows "\<exists>U'. tables_inv t U' (Suc n) \<and> U \<subseteq> U'"
    "\<forall>c\<in>slots. present (pde t c) \<longleftrightarrow> unat c * 512 < N"
    "\<forall>v. drop_bit 9 v \<in> slots \<longrightarrow> pte t v = (if unat v < N then identity_pte v else 0)"
    "\<forall>c\<in>slots. pde t c = pde s c \<or> table_entry (pde t c)" "same_page (pdpt s) (mem s) (mem t)"
    "kout t = kout s" "page_directories t = page_directories s" "pdpt t = pdpt s"
    "io t = io s @ map (\<lambda>k. Invlpg (of_nat k * 4096)) [0..<N]"
proof -
  define P where "P k t \<longleftrightarrow> (\<exists>U'. tables_inv t U' (Suc (tables_for N + n - tables_for k)) \<and> U \<subseteq> U') \<and>
    (\<forall>c\<in>slots. present (pde t c) \<longleftrightarrow> unat c * 512 < k) \<and>
    (\<forall>v. drop_bit 9 v \<in> slots \<longrightarrow> pte t v = (if unat v < k then identity_pte v else 0)) \<and>
    (\<forall>c\<in>slots. pde t c = pde s c \<or> table_entry (pde t c)) \<and> same_page (pdpt s) (mem s) (mem t) \<and>
    kout t = kout s \<and> page_directories t = page_directories s \<and> pdpt t = pdpt s \<and>
    io t = io s @ map (\<lambda>k. Invlpg (of_nat k * 4096)) [0..<k]" for k and t :: "'a paging_scheme"
  have mono: "tables_for k \<le> tables_for N" if "k \<le> N" for k
    using that unfolding tables_for_def by (intro div_le_mono) simp
  have "P N t" unfolding t_def
  proof (rule fold_upt_invariant [where P = P])
    have "drop_bit 9 v \<in> slots \<Longrightarrow> pte s v = 0" for v using none by (simp add: pte_def)
    then show "P 0 s" using inv none by (auto simp: P_def tables_for_def)
  next
    fix k t assume k: "k < N" and Pt: "P k t"
    then have kb: "k < 1048576" using N by simp
    obtain U1 where U1: "tables_inv t U1 (Suc (tables_for N + n - tables_for k))" "U \<subseteq> U1" using Pt by (auto simp: P_def)
    define c where "c = (of_nat (k div 512) :: u32)"
    define t' where "t' = map_identity (of_nat k * 4096) t"
    have uc: "unat c = k div 512" using kb by (simp add: c_def unat_of_nat_small)
    then have cs: "c \<in> slots" using kb by (simp add: slots_def less_mult_imp_div_less)
    have pc: "present (pde t c) \<longleftrightarrow> k mod 512 \<noteq> 0"
    proof -
      have "present (pde t c) \<longleftrightarrow> unat c * 512 < k" using Pt cs by (simp add: P_def)
      also have "\<dots> \<longleftrightarrow> k mod 512 \<noteq> 0" unfolding uc using div_mult_mod_eq [of k 512] by linarith
      finally show ?thesis .
    qed
    note M = map_identity_step [OF U1(1) kb, folded c_def t'_def]
    then obtain U2 where S: "table_step c (\<lambda>v e. if v = of_nat k then identity_pte v else e) t U1
        (tables_for N + n - tables_for k) t' U2" by blast
    have "tables_for (Suc k) \<le> tables_for N" using k by (intro mono) simp
    then have eq: "Suc (tables_for N + n - tables_for (Suc k)) =
        (if present (pde t c) then Suc (tables_for N + n - tables_for k) else tables_for N + n - tables_for k)"
      using pc tables_for_step [of k] by auto
    have "tables_inv t' U2 (Suc (tables_for N + n - tables_for (Suc k)))"
      using S unfolding eq table_step_def by blast
    then have 1: "\<exists>U'. tables_inv t' U' (Suc (tables_for N + n - tables_for (Suc k))) \<and> U \<subseteq> U'"
      using S U1(2) by (auto simp: table_step_def)
    have 2: "present (pde t' d) \<longleftrightarrow> unat d * 512 < Suc k" if "d \<in> slots" for d
    proof -
      have "present (pde t' d) \<longleftrightarrow> unat d = k div 512 \<or> unat d * 512 < k"
        using S Pt that uc word_eq_unatI [of d c] by (auto simp: table_step_def P_def)
      also have "\<dots> \<longleftrightarrow> unat d * 512 < Suc k"
        using div_mult_mod_eq [of k 512] mod_less_divisor [of 512 k] by arith
      finally show ?thesis .
    qed
    have 3: "pte t' v = (if unat v < Suc k then identity_pte v else 0)" if v: "drop_bit 9 v \<in> slots" for v
    proof -
      have "v = of_nat k \<longleftrightarrow> unat v = k" using kb word_eq_unatI [of v "of_nat k"] by (auto simp: unat_of_nat_small)
      then show ?thesis using S Pt v by (auto simp: table_step_def P_def less_Suc_eq)
    qed
    have 4: "pde t' d = pde s d \<or> table_entry (pde t' d)" if "d \<in> slots" for d
      using S Pt that unfolding table_step_def P_def by metis
    have "same_page (pdpt s) (mem s) (mem t')" using S Pt by (auto simp: table_step_def P_def intro: same_page_trans)
    then have "P (Suc k) t'" using 1 2 3 4 S Pt M(1) by (simp add: P_def table_step_def)
    then show "P (Suc k) (map_identity (of_nat k * 4096) t)" by (simp add: t'_def)
  qed
  then show "\<exists>U'. tables_inv t U' (Suc n) \<and> U \<subseteq> U'" "\<forall>c\<in>slots. present (pde t c) \<longleftrightarrow> unat c * 512 < N"
    "\<forall>v. drop_bit 9 v \<in> slots \<longrightarrow> pte t v = (if unat v < N then identity_pte v else 0)"
    "\<forall>c\<in>slots. pde t c = pde s c \<or> table_entry (pde t c)" "same_page (pdpt s) (mem s) (mem t)"
    "kout t = kout s" "page_directories t = page_directories s" "pdpt t = pdpt s"
    "io t = io s @ map (\<lambda>k. Invlpg (of_nat k * 4096)) [0..<N]"
    unfolding P_def by simp_all
qed

text \<open>Over a range whose tables are all present: pages \<open>a\<close> to \<open>a + N\<close>, no page is taken.\<close>

lemma present_loop:
  fixes s :: "'a paging_scheme"
  assumes inv: "tables_inv s U (Suc n)" and pres: "\<forall>c\<in>slots. unat c * 512 < a + N \<longrightarrow> present (pde s c)"
    and N: "a + N \<le> 1048576"
  defines "t \<equiv> fold (\<lambda>k. map_identity (of_nat (a + k) * 4096)) [0..<N] s"
  shows "\<exists>U'. tables_inv t U' (Suc n) \<and> U \<subseteq> U'"
    "\<forall>c\<in>slots. present (pde t c) \<longleftrightarrow> present (pde s c)"
    "\<forall>v. drop_bit 9 v \<in> slots \<longrightarrow> pte t v = (if a \<le> unat v \<and> unat v < a + N then identity_pte v else pte s v)"
    "\<forall>c\<in>slots. pde t c = pde s c \<or> table_entry (pde t c)" "same_page (pdpt s) (mem s) (mem t)"
    "kout t = kout s" "page_directories t = page_directories s" "pdpt t = pdpt s"
proof -
  define P where "P k t \<longleftrightarrow> (\<exists>U'. tables_inv t U' (Suc n) \<and> U \<subseteq> U') \<and>
    (\<forall>c\<in>slots. present (pde t c) \<longleftrightarrow> present (pde s c)) \<and>
    (\<forall>v. drop_bit 9 v \<in> slots \<longrightarrow> pte t v = (if a \<le> unat v \<and> unat v < a + k then identity_pte v else pte s v)) \<and>
    (\<forall>c\<in>slots. pde t c = pde s c \<or> table_entry (pde t c)) \<and> same_page (pdpt s) (mem s) (mem t) \<and>
    kout t = kout s \<and> page_directories t = page_directories s \<and> pdpt t = pdpt s" for k and t :: "'a paging_scheme"
  have "P N t" unfolding t_def
  proof (rule fold_upt_invariant [where P = P])
    show "P 0 s" using inv by (auto simp: P_def)
  next
    fix k t assume k: "k < N" and Pt: "P k t"
    define c where "c = (of_nat ((a + k) div 512) :: u32)"
    define t' where "t' = map_identity (of_nat (a + k) * 4096) t"
    have kb: "a + k < 1048576" using k N by simp
    obtain U1 where U1: "tables_inv t U1 (Suc n)" "U \<subseteq> U1" using Pt by (auto simp: P_def)
    have uc: "unat c = (a + k) div 512" using kb by (simp add: c_def unat_of_nat_small)
    then have cs: "c \<in> slots" using kb by (simp add: slots_def less_mult_imp_div_less)
    have "(a + k) div 512 * 512 < a + N" using k div_mult_mod_eq [of "a + k" 512] by linarith
    then have pc: "present (pde t c)" using Pt cs pres uc by (auto simp: P_def)
    obtain U2 where S: "table_step c (\<lambda>v e. if v = of_nat (a + k) then identity_pte v else e) t U1 n t' U2"
      using map_identity_step(2) [OF U1(1) kb] unfolding c_def t'_def by blast
    have 1: "\<exists>U'. tables_inv t' U' (Suc n) \<and> U \<subseteq> U'" using S pc U1(2) by (auto simp: table_step_def)
    have 3: "pte t' v = (if a \<le> unat v \<and> unat v < a + Suc k then identity_pte v else pte s v)"
      if v: "drop_bit 9 v \<in> slots" for v
    proof -
      have "v = of_nat (a + k) \<longleftrightarrow> unat v = a + k"
        using kb word_eq_unatI [of v "of_nat (a + k)"] by (auto simp: unat_of_nat_small simp del: of_nat_add)
      then have "pte t' v = (if unat v = a + k then identity_pte v else pte t v)" using S v by (simp add: table_step_def)
      then show ?thesis using Pt v by (auto simp: P_def)
    qed
    have 4: "present (pde t' d) \<longleftrightarrow> present (pde s d)" if "d \<in> slots" for d
      using S Pt that pc by (auto simp: table_step_def P_def)
    have 5: "pde t' d = pde s d \<or> table_entry (pde t' d)" if "d \<in> slots" for d
      using S Pt that unfolding table_step_def P_def by metis
    have "same_page (pdpt s) (mem s) (mem t')" using S Pt by (auto simp: table_step_def P_def intro: same_page_trans)
    then have "P (Suc k) t'" using 1 3 4 5 S Pt by (simp add: P_def table_step_def)
    then show "P (Suc k) (map_identity (of_nat (a + k) * 4096) t)" by (simp add: t'_def)
  qed
  then show "\<exists>U'. tables_inv t U' (Suc n) \<and> U \<subseteq> U'"
    "\<forall>c\<in>slots. present (pde t c) \<longleftrightarrow> present (pde s c)"
    "\<forall>v. drop_bit 9 v \<in> slots \<longrightarrow> pte t v = (if a \<le> unat v \<and> unat v < a + N then identity_pte v else pte s v)"
    "\<forall>c\<in>slots. pde t c = pde s c \<or> table_entry (pde t c)" "same_page (pdpt s) (mem s) (mem t)"
    "kout t = kout s" "page_directories t = page_directories s" "pdpt t = pdpt s"
    unfolding P_def by blast+
qed

lemma for_pages_fold:
  assumes "(limit - start + 4095) div 4096 = of_nat N" "N < 4294967296" "start = of_nat a * 4096"
  shows "for_pages start limit map_identity s = fold (\<lambda>k. map_identity (of_nat (a + k) * 4096)) [0..<N] s"
proof -
  have e: "limit - start + PAGE_SIZE - 1 = limit - start + 4095" by simp
  show ?thesis unfolding for_pages_def for_lt_def e assms(1)
    using assms(2) by (simp add: unat_of_nat_small assms(3) distrib_right)
qed

end
