(* ===== verification/Paging_Init.thy ===== *)
theory Paging_Init
  imports Paging_Setup
begin

text \<open>
  The state \<open>paging_init\<close> builds: the page directory pointer table and the four empty
  directories are the five pages at the head of the pool.
\<close>

section \<open>The pool in the loop\<close>

lemma pool_addr_inj: "i < 1048576 \<Longrightarrow> j < 1048576 \<Longrightarrow> pool_addr base i = pool_addr base j \<longleftrightarrow> i = j"
proof -
  assume b: "i < 1048576" "j < 1048576"
  have e: "pool_addr base i = base + of_nat (i * 4096)" "pool_addr base j = base + of_nat (j * 4096)"
    by (simp_all add: pool_addr_def)
  show ?thesis unfolding e using b of_nat_inj32 [of "i * 4096" "j * 4096"] by simp
qed

definition pool_owned :: "u32 \<Rightarrow> nat \<Rightarrow> u32 set" where
  "pool_owned base k = pool_addr base ` {k..<1024}"

lemma pool_owned_step: "k < 1024 \<Longrightarrow> pool_owned base k = insert (pool_addr base k) (pool_owned base (Suc k))"
proof -
  assume "k < 1024"
  then have "{k..<1024} = insert k {Suc k..<1024}" by auto
  then show ?thesis by (simp add: pool_owned_def)
qed

lemma pool_owned_mem: "k \<le> i \<Longrightarrow> i < 1024 \<Longrightarrow> pool_addr base i \<in> pool_owned base k"
  by (simp add: pool_owned_def)

text \<open>One more page from the pool.\<close>

lemma pool_next:
  assumes "pool_inv s (pool_list base (Suc k)) (pool_owned base (Suc k))" "k < 1024"
  shows "allocate_from_free_list s = (pool_addr base k, pool_take (pool_addr base k) s)"
    "pool_inv (pool_take (pool_addr base k) s) (pool_list base k) (pool_owned base k)"
    "mem (pool_take (pool_addr base k) s) = zero_words 1024 (pool_addr base k) (mem s)"
    "page_aligned (pool_addr base k)" "pool_addr base k \<notin> pool_owned base (Suc k)"
    "q \<in> pool_owned base (Suc k) \<Longrightarrow> same_page q (mem s) (mem (pool_take (pool_addr base k) s))"
proof -
  note I = assms(1) [unfolded pool_list_Suc]
  note A = pool_alloc_list [OF I]
  show "allocate_from_free_list s = (pool_addr base k, pool_take (pool_addr base k) s)" by (rule A(1))
  show "pool_inv (pool_take (pool_addr base k) s) (pool_list base k) (pool_owned base k)"
    using A(2) pool_owned_step [OF assms(2), of base] by simp
  show m: "mem (pool_take (pool_addr base k) s) = zero_words 1024 (pool_addr base k) (mem s)" by (simp add: pool_take_def)
  show al: "page_aligned (pool_addr base k)" and new: "pool_addr base k \<notin> pool_owned base (Suc k)"
    using I by (simp_all add: pool_inv_def pool_page_def)
  assume q: "q \<in> pool_owned base (Suc k)"
  then have "page_aligned q" "q \<noteq> pool_addr base k" using I new by (auto simp: pool_inv_def pool_page_def)
  then show "same_page q (mem s) (mem (pool_take (pool_addr base k) s))" unfolding m using al by (intro same_page_zero)
qed

definition init_loop_inv :: "u32 \<Rightarrow> nat \<Rightarrow> nat \<Rightarrow> 'a paging_scheme \<Rightarrow> bool" where
  "init_loop_inv base B i s \<longleftrightarrow>
     pool_inv s (pool_list base (1023 - i)) (pool_owned base (1023 - i)) \<and>
     pdpt s = pool_addr base 1023 \<and> length (page_directories s) = 4 \<and> bump_room s = B \<and>
     (\<forall>j<i. page_directories s ! j = pool_addr base (1022 - j) \<and>
        get_entry (pdpt s) (of_nat j) s = ucast (pool_addr base (1022 - j)) OR 1 \<and>
        (\<forall>k. unat k < 512 \<longrightarrow> get_entry (pool_addr base (1022 - j)) k s = 0))"

lemma init_entry_step:
  assumes I: "init_loop_inv base B i s" and i: "i < 4"
  shows "init_loop_inv base B (Suc i) (paging_init_entry (of_nat i) s)"
    "page_no x \<noteq> page_no (pool_addr base (1022 - i)) \<Longrightarrow> page_no x \<noteq> page_no (pool_addr base 1023) \<Longrightarrow>
     mem (paging_init_entry (of_nat i) s) x = mem s x"
    "says s (paging_init_entry (of_nat i) s)" "io (paging_init_entry (of_nat i) s) = io s"
    "paging.more (paging_init_entry (of_nat i) s) = paging.more s"
    "pmm_part (paging_init_entry (of_nat i) s) = pmm_part s"
    "next_free_page (paging_init_entry (of_nat i) s) = next_free_page s"
proof -
  define k where "k = 1022 - i"
  have k: "1023 - i = Suc k" "k < 1024" "1023 - Suc i = k" using i by (simp_all add: k_def)
  define p where "p = pool_addr base k"
  define P where "P = pool_addr base 1023"
  have inv: "pool_inv s (pool_list base (Suc k)) (pool_owned base (Suc k))" using I by (simp add: init_loop_inv_def k)
  note N = pool_next [OF inv k(2), folded p_def]
  define s1 where "s1 = pool_take p s"
  define s2 where "s2 = s1\<lparr>page_directories := (page_directories s1)[i := p]\<rparr>"
  define s3 where "s3 = set_entry P (of_nat i) (ucast p OR 1) s2"
  have pd: "pdpt s = P" "pdpt s2 = P" using I by (simp_all add: init_loop_inv_def P_def s2_def s1_def pool_take_def)
  have ui: "unat (of_nat i :: u32) = i" using i by (simp add: unat_of_nat_small)
  have e: "paging_init_entry (of_nat i) s = printk ''PDPT[%d] -> 0x%x\<newline>'' [KInt (of_nat i), KInt p] s3"
    unfolding paging_init_entry_def Let_def N(1) using ui pd
    by (simp add: s3_def s2_def s1_def)
  have Pin: "P \<in> pool_owned base (Suc k)" using k(1) i by (simp add: P_def pool_owned_mem)
  have alP: "page_aligned P" using inv Pin by (auto simp: pool_inv_def pool_page_def)
  have pP: "p \<noteq> P" using N(5) Pin by auto
  have i5: "unat (of_nat i :: u32) < 512" using i ui by simp
  have inv1: "pool_inv s1 (pool_list base k) (pool_owned base k)" using N(2) by (simp add: s1_def)
  have m3: "mem s3 = store64 (P + 8 * of_nat i) (ucast p OR 1) (mem s1)" by (simp add: s3_def set_entry_def entry_addr_def s2_def)
  have Pin': "P \<in> pool_owned base k" using i by (simp add: P_def pool_owned_mem k_def)
  have pw: "\<forall>x. page_no x \<noteq> page_no P \<longrightarrow> mem s3 x = mem s1 x"
    unfolding m3 using alP i5 by (auto simp: elem8_page intro!: w64.st_page elem8_aligned)
  have "pool_inv (s1\<lparr>mem := mem s3\<rparr>) (pool_list base k) (pool_owned base k)"
    by (rule pool_write_owned [OF inv1 Pin' pw])
  then have inv3: "pool_inv s3 (pool_list base k) (pool_owned base k)"
    by (simp add: pool_inv_def pool_page_def s3_def s2_def set_entry_def)
  have keep: "same_page q (mem s) (mem s3)" if "q \<in> pool_owned base (Suc k)" "q \<noteq> P" for q
  proof -
    have "page_aligned q" using inv that(1) by (auto simp: pool_inv_def pool_page_def)
    then have "same_page q (mem s1) (mem s3)" using pw alP that(2) by (simp add: same_page_def page_no_eq)
    then show ?thesis using N(6) [OF that(1)] by (auto simp: s1_def intro: same_page_trans)
  qed
  have z: "get_entry p j s3 = 0" if "unat j < 512" for j
  proof -
    have "same_page p (mem s1) (mem s3)" using pw alP pP N(4) by (simp add: same_page_def page_no_eq)
    then have "get_entry p j s3 = get_entry p j s1" using N(4) that by (rule get_entry_same)
    also have "\<dots> = 0" using that N(3,4)
      by (simp add: get_entry_def entry_addr_def s1_def load64_zero_page elem8_aligned elem8_page)
    finally show ?thesis .
  qed
  have old: "page_directories s3 ! j = pool_addr base (1022 - j) \<and>
        get_entry (pdpt s3) (of_nat j) s3 = ucast (pool_addr base (1022 - j)) OR 1 \<and>
        (\<forall>k. unat k < 512 \<longrightarrow> get_entry (pool_addr base (1022 - j)) k s3 = 0)" if j: "j < Suc i" for j
  proof (cases "j = i")
    case True
    have "page_directories s3 ! i = p" using I i by (simp add: s3_def s2_def s1_def pool_take_def init_loop_inv_def)
    moreover have "get_entry P (of_nat i) s3 = ucast p OR 1"
      unfolding s3_def using alP i5 by (simp add: get_set_entry)
    moreover have "pdpt s3 = P" by (simp add: s3_def pd)
    ultimately show ?thesis using True z by (simp add: k_def [symmetric] p_def [symmetric])
  next
    case False
    then have j: "j < i" using j by simp
    define q where "q = pool_addr base (1022 - j)"
    have J: "page_directories s ! j = q" "get_entry P (of_nat j) s = ucast q OR 1" "\<forall>k. unat k < 512 \<longrightarrow> get_entry q k s = 0"
      using I j unfolding init_loop_inv_def q_def pd(1) by blast+
    have qin: "q \<in> pool_owned base (Suc k)" unfolding q_def using j i by (intro pool_owned_mem) (simp_all add: k_def)
    have alq: "page_aligned q" using inv qin by (auto simp: pool_inv_def pool_page_def)
    have qP: "q \<noteq> P" using j i by (simp add: q_def P_def pool_addr_inj)
    have uj: "unat (of_nat j :: u32) < 512" "(of_nat j :: u32) \<noteq> of_nat i"
      using j i of_nat_inj32 [of j i] by (simp_all add: unat_of_nat_small)
    have "get_entry P (of_nat j) s3 = get_entry P (of_nat j) s2" unfolding s3_def using alP uj i5 by (simp add: get_set_entry)
    also have "\<dots> = get_entry P (of_nat j) s"
    proof (rule get_entry_same [OF _ alP uj(1)])
      show "same_page P (mem s) (mem s2)" using N(6) [OF Pin] by (simp add: s2_def s1_def)
    qed
    finally have a: "get_entry P (of_nat j) s3 = ucast q OR 1" using J(2) by simp
    have "get_entry q k s3 = 0" if "unat k < 512" for k
      using get_entry_same [OF keep [OF qin qP] alq that] J(3) that by simp
    moreover have "page_directories s3 ! j = q" using J(1) j by (simp add: s3_def s2_def s1_def pool_take_def)
    ultimately show ?thesis using a by (simp add: q_def s3_def pd)
  qed
  have b: "bump_room s3 = B" "length (page_directories s3) = 4" "pdpt s3 = P"
    using I by (simp_all add: init_loop_inv_def s3_def s2_def s1_def pool_take_def bump_room_def pd)
  have "init_loop_inv base B (Suc i) s3" 
    unfolding init_loop_inv_def k(3) using inv3 old b by (simp add: P_def)
  moreover have "init_loop_inv base B j (emit c t) = init_loop_inv base B j t" for j c and t :: "'a paging_scheme"
    by (simp add: init_loop_inv_def pool_inv_def pool_page_def bump_room_def get_entry_def)
  ultimately show "init_loop_inv base B (Suc i) (paging_init_entry (of_nat i) s)" by (simp add: e)
  show "mem (paging_init_entry (of_nat i) s) x = mem s x"
    if "page_no x \<noteq> page_no (pool_addr base (1022 - i))" "page_no x \<noteq> page_no (pool_addr base 1023)"
    using that pw N(3,4) by (simp add: e k_def [symmetric] p_def [symmetric] P_def [symmetric] s1_def zero_page)
  have "kout s3 = kout s" by (simp add: s3_def s2_def s1_def pool_take_def)
  then have "says s s3" by (rule says_same)
  then show "says s (paging_init_entry (of_nat i) s)" unfolding e by (rule says_emit) (simp add: call_simps)
  show "io (paging_init_entry (of_nat i) s) = io s" "paging.more (paging_init_entry (of_nat i) s) = paging.more s"
    "pmm_part (paging_init_entry (of_nat i) s) = pmm_part s"
    "next_free_page (paging_init_entry (of_nat i) s) = next_free_page s"
    by (simp_all add: e s3_def s2_def s1_def pool_take_def set_entry_def pmm_part_def)
qed

section \<open>The state after \<open>paging_init\<close>\<close>

definition pdpt_ok :: "'a paging_scheme \<Rightarrow> bool" where
  "pdpt_ok s \<longleftrightarrow> (\<forall>k. unat k < 4 \<longrightarrow> get_entry (pdpt s) k s = ucast (page_directories s ! unat k) OR 1)"

text \<open>Addresses outside the five pages taken.\<close>

definition off_tables :: "u32 \<Rightarrow> u32 \<Rightarrow> bool" where
  "off_tables base x \<longleftrightarrow> (\<forall>j. 1019 \<le> j \<and> j < 1024 \<longrightarrow> page_no x \<noteq> page_no (pool_addr base j))"

lemma off_tablesD: "off_tables base x \<Longrightarrow> 1019 \<le> j \<Longrightarrow> j < 1024 \<Longrightarrow> page_no x \<noteq> page_no (pool_addr base j)"
  by (simp add: off_tables_def)

lemma init_loop_result:
  assumes "init_loop_inv base B 4 s"
  shows "page_directories s = map (\<lambda>j. pool_addr base (1022 - j)) [0..<4]" "pdpt_ok s"
    "\<forall>c\<in>slots. pde s c = 0" "tables_inv s (pool_owned base 1019) (1019 + B)"
proof -
  note I = assms [unfolded init_loop_inv_def]
  show pds: "page_directories s = map (\<lambda>j. pool_addr base (1022 - j)) [0..<4]"
    by (rule nth_equalityI) (use I in simp_all)
  show "pdpt_ok s" unfolding pdpt_ok_def
  proof (intro allI impI)
    fix k :: u32 assume k: "unat k < 4"
    then have "get_entry (pdpt s) (of_nat (unat k)) s = ucast (pool_addr base (1022 - unat k)) OR 1"
      "page_directories s ! unat k = pool_addr base (1022 - unat k)" using I by blast+
    then show "get_entry (pdpt s) k s = ucast (page_directories s ! unat k) OR 1" by simp
  qed
  show z: "\<forall>c\<in>slots. pde s c = 0"
  proof
    fix c assume c: "c \<in> slots"
    have "slot_dir s c = pool_addr base (1022 - unat (drop_bit 9 c))"
      using I slot_parts(1) [OF c] by (simp add: slot_dir_def)
    then show "pde s c = 0" using I slot_parts(1) [OF c] slot_parts(2) [of c] by (simp add: pde_def)
  qed
  have set: "set (page_directories s) = pool_addr base ` {1019, 1020, 1021, 1022}"
    unfolding pds by (auto simp: numeral_eq_Suc lessThan_Suc)
  have "distinct (pdpt s # page_directories s)"
    unfolding pds using I by (auto simp: pool_addr_inj distinct_map inj_on_def)
  moreover have "insert (pdpt s) (set (page_directories s)) \<subseteq> pool_owned base 1019"
    unfolding set using I by (auto simp: pool_owned_def)
  ultimately have "dirs_ok s (pool_owned base 1019)" using I by (simp add: dirs_ok_def)
  moreover have "pool_owns s (pool_owned base 1019) (1019 + B)"
    unfolding pool_owns_def using I by (intro exI [of _ "pool_list base 1019"]) (simp add: pool_list_def)
  ultimately show "tables_inv s (pool_owned base 1019) (1019 + B)"
    using z by (simp add: tables_inv_def present_def)
qed

lemma says_init_free_list: "says s (init_free_list s)"
proof -
  define s0 where "s0 = printk ''Initializing physical memory free list...\<newline>'' [] s"
  define s1 where "s1 = for_lt 1024 (init_free_page (next_free_page s0)) s0"
  have "says s s0" unfolding s0_def by (rule says_emit) (simp_all add: call_simps)
  moreover have "says u (init_free_page b i u)" for b i and u :: "'a paging_scheme"
    by (rule says_same) (simp add: init_free_page_def Let_def)
  then have "says s0 s1" unfolding s1_def by (rule says_for_lt)
  ultimately have "says s s1" by (rule says_trans)
  then have "says s (s1\<lparr>next_free_page := next_free_page s1 + 1024 * PAGE_SIZE\<rparr>)" by (rule says_keep) simp
  then have "says s (printk ''Free list initialized with %u pages\<newline>'' [KInt 1024]
      (s1\<lparr>next_free_page := next_free_page s1 + 1024 * PAGE_SIZE\<rparr>))"
    by (rule says_emit) (simp add: call_simps)
  then show ?thesis unfolding init_free_list_def Let_def s0_def [symmetric] s1_def [symmetric] .
qed

text \<open>The first page of the pool is the last of the list: it is all zero.\<close>

lemma init_loop_first:
  assumes "page_aligned base" "unat base + 0x400000 \<le> 0xFFFFF000" "free_list_head s = 0" "page_no x = page_no base"
  shows "mem (for_lt 1024 (init_free_page base) s) x = 0"
proof -
  define P where "P k t \<longleftrightarrow> (if k = 0 then free_list_head t = 0 else \<forall>x. page_no x = page_no base \<longrightarrow> mem t x = 0)"
    for k :: nat and t :: "'a paging_scheme"
  have "P (unat (1024 :: u32)) (for_lt 1024 (init_free_page base) s)"
  proof (rule for_lt_invariant [where P = P])
    show "P 0 s" using assms(3) by (simp add: P_def)
  next
    fix k t assume k: "k < unat (1024 :: u32)" and Pt: "P k t"
    define p where "p = pool_addr base k"
    have al: "page_aligned p" using assms(1) by (simp add: p_def pool_addr_aligned)
    have m: "mem (init_free_page base (of_nat k) t) = store32 p (free_list_head t) (zero_words 1024 p (mem t))"
      by (simp add: init_free_page_def Let_def p_def pool_addr_def)
    have "unat (page_no p) = unat (page_no base) + k"
      using assms(2) k by (simp add: p_def unat_page_no unat_pool_addr)
    then have pn: "page_no p = page_no base \<longleftrightarrow> k = 0" by (auto simp: word_unat_eq_iff)
    have "mem (init_free_page base (of_nat k) t) x = 0" if x: "page_no x = page_no base" for x
    proof (cases "k = 0")
      case True
      have "unat p + 4 \<le> 4294967296" using al aligned_top [of 12 p] by simp
      then show ?thesis unfolding m using True Pt pn x al by (simp add: P_def store32_zero_range zero_page)
    next
      case False
      then have "page_no x \<noteq> page_no p" using pn x by auto
      then have "mem (init_free_page base (of_nat k) t) x = mem t x" using al by (simp add: m w32.st_page aligned_mono zero_page)
      then show ?thesis using False Pt x by (simp add: P_def)
    qed
    then show "P (Suc k) (init_free_page base (of_nat k) t)" by (simp add: P_def)
  qed
  then show ?thesis using assms(4) by (simp add: P_def)
qed

lemma paging_init_state:
  fixes s :: "'a paging_scheme"
  assumes inv: "pool_inv s [] {}" and room: "1024 \<le> bump_room s" and len: "length (page_directories s) = 4"
  defines "base \<equiv> next_free_page s"
  defines "t \<equiv> paging_init s"
  shows "init_loop_inv base (bump_room s - 1024) 4 t" "says s t" "io t = io s"
    "unat (page_no x) < unat (page_no base) \<or> unat (page_no base) + 1024 \<le> unat (page_no x) \<Longrightarrow> mem t x = mem s x"
    "paging.more t = paging.more s" "pmm_part t = pmm_part s"
    "next_free_page t = base + 0x400000"
    "off_tables base x \<Longrightarrow> mem t x = mem (init_free_list (printk ''Initializing PAE paging...\<newline>'' [] s)) x"
proof -
  define s0 where "s0 = printk ''Initializing PAE paging...\<newline>'' [] s"
  define s1 where "s1 = init_free_list s0"
  define p where "p = pool_addr base 1023"
  define s2 where "s2 = (pool_take p s1)\<lparr>pdpt := p\<rparr>"
  define s3 where "s3 = for_lt 4 paging_init_entry s2"
  have inv0: "pool_inv s0 [] {}" using inv by (simp add: s0_def pool_inv_def pool_page_def)
  have b0: "bump_room s0 = bump_room s" "next_free_page s0 = base" by (simp_all add: s0_def bump_room_def base_def)
  note L = init_free_list_pool [OF inv0, unfolded b0, OF room, folded s1_def, simplified]
  have "pool_owned base (Suc 1023) = {}" by (simp add: pool_owned_def)
  then have inv1: "pool_inv s1 (pool_list base (Suc 1023)) (pool_owned base (Suc 1023))" using L(1) by simp
  note A = pool_next [OF inv1, simplified, folded p_def]
  have "p AND mask 5 = 0"
    using aligned_mono [OF A(4), of 5] by (simp add: aligned_def take_bit_eq_mask)
  then have al: "p AND 0x1F = 0" by (simp add: mask_eq_exp_minus_1)
  have e: "t = printk ''PDPT allocated at 0x%x\<newline>'' [KInt (pdpt s3)] s3"
    unfolding t_def paging_init_def Let_def s0_def [symmetric] s1_def [symmetric] A(1)
    using al by (simp add: s3_def s2_def)
  have inv2: "init_loop_inv base (bump_room s - 1024) 0 s2"
    using A(2) L(2,10) len
    by (simp add: init_loop_inv_def pool_inv_def pool_page_def s2_def p_def pool_take_def bump_room_def s0_def)
  define P where "P i u \<longleftrightarrow> init_loop_inv base (bump_room s - 1024) i u \<and> says s2 u \<and> io u = io s2 \<and>
    paging.more u = paging.more s2 \<and> pmm_part u = pmm_part s2 \<and>
    next_free_page u = next_free_page s2 \<and>
    (\<forall>x. off_tables base x \<longrightarrow> mem u x = mem s2 x)"
    for i and u :: "'a paging_scheme"
  have ub: "unat base + 0x400000 \<le> 0xFFFFF000" using room unfolding bump_room_def base_def by linarith
  have pn: "unat (page_no (pool_addr base i)) = unat (page_no base) + i" if "i < 1024" for i
    using ub that by (simp add: unat_page_no unat_pool_addr)
  have out: "page_no x \<noteq> page_no (pool_addr base i)"
    if "unat (page_no x) < unat (page_no base) \<or> unat (page_no base) + 1024 \<le> unat (page_no x)" "i < 1024" for x i
    using that pn [of i] by auto
  have "P (unat (4 :: u32)) s3" unfolding s3_def
  proof (rule for_lt_invariant [where P = P])
    show "P 0 s2" using inv2 by (simp add: P_def)
  next
    fix i u assume i: "i < unat (4 :: u32)" and u: "P i u"
    then have I: "init_loop_inv base (bump_room s - 1024) i u" and i4: "i < 4" by (simp_all add: P_def)
    note S = init_entry_step [OF I i4]
    have "mem (paging_init_entry (of_nat i) u) x = mem s2 x"
      if x: "off_tables base x" for x
    proof -
      have "1019 \<le> 1022 - i" "1022 - i < 1024" using i4 by linarith+
      then have "page_no x \<noteq> page_no (pool_addr base (1022 - i))" "page_no x \<noteq> page_no (pool_addr base 1023)"
        using off_tablesD [OF x] by simp_all
      then have "mem (paging_init_entry (of_nat i) u) x = mem u x" by (rule S(2))
      then show ?thesis using u x unfolding P_def by simp
    qed
    moreover have "says s2 (paging_init_entry (of_nat i) u)" using u S(3) by (auto simp: P_def intro: says_trans)
    ultimately show "P (Suc i) (paging_init_entry (of_nat i) u)" using u S unfolding P_def by metis
  qed
  then have P3: "P 4 s3" by simp
  have keep: "init_loop_inv base B j (emit c u) = init_loop_inv base B j u" for B j c and u :: "'a paging_scheme"
    by (simp add: init_loop_inv_def pool_inv_def pool_page_def bump_room_def get_entry_def)
  show "init_loop_inv base (bump_room s - 1024) 4 t" using P3 by (simp add: e keep P_def)
  have "says s s0" unfolding s0_def by (rule says_emit) (simp_all add: call_simps)
  moreover have "says s0 s1"
    unfolding s1_def by (rule says_init_free_list)
  moreover have "says s1 s2" by (rule says_same) (simp add: s2_def pool_take_def)
  ultimately have "says s s3" using P3 unfolding P_def by (blast intro: says_trans)
  then show "says s t" unfolding e by (rule says_emit) (simp add: call_simps)
  have fr: "mem t x = mem s1 x" if "off_tables base x"
  proof -
    have "mem s3 x = mem s2 x" using P3 that unfolding P_def by blast
    also have "mem s2 x = mem s1 x" using off_tablesD [OF that, of 1023] A(3,4) by (simp add: s2_def zero_page p_def [symmetric])
    finally show ?thesis by (simp add: e)
  qed
  then show "off_tables base x \<Longrightarrow> mem t x = mem (init_free_list (printk ''Initializing PAE paging...\<newline>'' [] s)) x"
    unfolding s1_def s0_def by blast
  show "mem t x = mem s x" if "unat (page_no x) < unat (page_no base) \<or> unat (page_no base) + 1024 \<le> unat (page_no x)"
  proof -
    have "mem t x = mem s1 x" using out [OF that] by (intro fr) (simp add: off_tables_def)
    also have "mem s1 x = mem s x" using L(4) that by (auto simp: s0_def)
    finally show ?thesis .
  qed
  show "io t = io s" "paging.more t = paging.more s" "pmm_part t = pmm_part s"
    "next_free_page t = base + 0x400000"
    using P3 L(3,5,6,7,8) by (simp_all add: e P_def s2_def pool_take_def s0_def pmm_part_def)
qed

end
