(* ===== verification/Paging_Walk.thy ===== *)
theory Paging_Walk
  imports Paging_Init
begin

text \<open>
  The processor's PAE translation as the reference for the page tables: the walk from the
  page directory pointer table, and the proof that on the tables the code builds it reads
  exactly the map of leaves. The walk is what the Intel manual specifies for 4 KB and 2 MB
  pages with 52 physical address bits; tables above 4 GB are out of the memory model.
\<close>

section \<open>The walk\<close>

definition entry_base :: "u64 \<Rightarrow> u64" where
  "entry_base e = e AND 0x000FFFFFFFFFF000"

definition pae_walk :: "memory \<Rightarrow> u32 \<Rightarrow> u32 \<Rightarrow> u64 option" where
  "pae_walk m root va =
     (let e1 = load64 m ((root AND 0xFFFFFFE0) + 8 * drop_bit 30 va)
      in if \<not> present e1 then None else
      let e2 = load64 m (ucast (entry_base e1) + 8 * take_bit 9 (drop_bit 21 va))
      in if \<not> present e2 then None
      else if bit e2 7 then Some ((e2 AND 0x000FFFFFFFE00000) OR ucast (take_bit 21 va)) else
      let e3 = load64 m (ucast (entry_base e2) + 8 * take_bit 9 (drop_bit 12 va))
      in if \<not> present e3 then None else Some (entry_base e3 OR ucast (take_bit 12 va)))"

lemma aligned_low_bit: "aligned k p \<Longrightarrow> n < k \<Longrightarrow> \<not> bit p n"
  by (metis aligned_def bit_0_eq bit_take_bit_iff bot_apply bot_bool_def)

lemma entry_base_of: "page_aligned p \<Longrightarrow> entry_base (ucast p OR e AND 0xFFF) = ucast p"
proof (rule bit_word_eqI)
  fix n assume p: "page_aligned p" and n: "n < LENGTH(64)"
  have m1: "(0x000FFFFFFFFFF000 :: u64) = push_bit 12 (mask 40)" by (simp add: mask_eq_exp_minus_1 push_bit_eq_mult)
  have m2: "(0xFFF :: u64) = mask 12" by (simp add: mask_eq_exp_minus_1)
  show "bit (entry_base (ucast p OR e AND 0xFFF)) n = bit (ucast p :: u64) n"
    unfolding entry_base_def m1 m2 using n aligned_low_bit [OF p, of n] bit_imp_le_length [of p n]
    by (cases "n < 12") (auto simp: bit_simps not_less)
qed

lemma aligned_cr3: "aligned 5 p \<Longrightarrow> p AND 0xFFFFFFE0 = p"
proof (rule bit_word_eqI)
  fix n assume p: "aligned 5 p" and n: "n < LENGTH(32)"
  have m: "(0xFFFFFFE0 :: u32) = push_bit 5 (mask 27)" by (simp add: mask_eq_exp_minus_1 push_bit_eq_mult)
  show "bit (p AND 0xFFFFFFE0) n = bit p n"
    unfolding m using n aligned_low_bit [OF p, of n] by (cases "n < 5") (auto simp: bit_simps not_less)
qed

lemma ucast_back [simp]: "ucast (ucast a :: u64) = (a :: u32)"
  by (rule bit_word_eqI) (simp add: bit_simps)

lemma pde_for_base: "page_aligned pt \<Longrightarrow> entry_base (pde_for pt flags) = ucast pt"
  unfolding pde_for_low by (rule entry_base_of)

lemma pde_for_small: "page_aligned pt \<Longrightarrow> \<not> bit (pde_for pt flags) 7"
proof -
  assume "page_aligned pt"
  then have "\<not> bit pt 7" by (rule aligned_low_bit) simp
  then show ?thesis by (simp add: pde_for_def bit_simps)
qed

section \<open>The walk on the code's tables\<close>

definition walk_inv :: "'a paging_scheme \<Rightarrow> bool" where
  "walk_inv s \<longleftrightarrow> pdpt_ok s \<and> (\<forall>c\<in>slots. present (pde s c) \<longrightarrow> table_entry (pde s c))"

lemma walk_inv_emit [simp]: "walk_inv (emit k s) = walk_inv s" "tables_inv (emit k s) U n = tables_inv s U n"
  "pte (emit k s) v = pte s v" "pde (emit k s) c = pde s c"
  by (simp_all add: walk_inv_def pdpt_ok_def pde_def slot_dir_def get_entry_def tables_inv_def pool_owns_def pool_inv_def
      pool_page_def bump_room_def dirs_ok_def slot_table_def pte_def)

lemma pae_walk_leaf:
  assumes inv: "tables_inv s U n" and w: "walk_inv s"
  shows "pae_walk (mem s) (pdpt s) va =
    (if present (pte s (page_no va)) then Some (entry_base (pte s (page_no va)) OR ucast (take_bit 12 va)) else None)"
proof -
  define c where "c = drop_bit 21 va"
  have c: "c \<in> slots" and dc: "drop_bit 9 c = drop_bit 30 va" by (simp_all add: c_def va_slot)
  have "pdpt s \<in> U" using inv_dirs(1) [OF inv] by (simp add: dirs_ok_def)
  then have "aligned 5 (pdpt s)" using aligned_mono [OF inv_aligned [OF inv], of "pdpt s" 5] by simp
  then have e1: "load64 (mem s) ((pdpt s AND 0xFFFFFFE0) + 8 * drop_bit 30 va) = ucast (slot_dir s c) OR 1"
    using w slot_parts(1) [OF c] by (simp add: walk_inv_def pdpt_ok_def aligned_cr3 get_entry_def entry_addr_def slot_dir_def dc)
  have "page_aligned (slot_dir s c)" using inv_dir [OF inv c] inv_aligned [OF inv] by blast
  then have b1: "entry_base (ucast (slot_dir s c) OR 1) = ucast (slot_dir s c)" using entry_base_of [of _ 1] by simp
  have p1: "present (ucast (slot_dir s c) OR 1)" by (simp add: present_iff flip: bit_0) (simp add: bit_or_iff)
  have e2: "load64 (mem s) (slot_dir s c + 8 * take_bit 9 (drop_bit 21 va)) = pde s c"
    by (simp add: pde_def get_entry_def entry_addr_def c_def)
  show ?thesis
  proof (cases "present (pde s c)")
    case True
    then obtain pt fl where t: "page_aligned pt" "pde s c = pde_for pt fl"
      using w c by (auto simp: walk_inv_def table_entry_def)
    then have st: "slot_table s c = pt" "entry_base (pde s c) = ucast pt" "\<not> bit (pde s c) 7"
      by (simp_all add: slot_table_def pde_for_table pde_for_base pde_for_small)
    have "load64 (mem s) (pt + 8 * take_bit 9 (drop_bit 12 va)) = pte s (page_no va)"
      using True by (simp add: pte_def drop_page_no c_def [symmetric] st get_entry_def entry_addr_def page_no_def)
    then show ?thesis using True st(2,3) e2 p1 by (simp add: pae_walk_def e1 b1 Let_def)
  next
    case False
    then have "pte s (page_no va) = 0" by (simp add: pte_def drop_page_no c_def [symmetric])
    then show ?thesis using False e2 p1 by (simp add: pae_walk_def e1 b1 Let_def present_def)
  qed
qed

lemma table_step_walk: "walk_inv s \<Longrightarrow> tables_inv s U k \<Longrightarrow> table_step c f s U n s' U' \<Longrightarrow> walk_inv s'"
proof -
  assume w: "walk_inv s" and inv: "tables_inv s U k" and S: "table_step c f s U n s' U'"
  have "page_aligned (pdpt s)" using inv_aligned [OF inv] inv_dirs(1) [OF inv] by (auto simp: dirs_ok_def)
  then have "get_entry (pdpt s) i s' = get_entry (pdpt s) i s" if "unat i < 4" for i
    using S that by (intro get_entry_same) (auto simp: table_step_def)
  then have "pdpt_ok s'" using w S by (auto simp: walk_inv_def pdpt_ok_def table_step_def)
  moreover have "\<forall>d\<in>slots. present (pde s' d) \<longrightarrow> table_entry (pde s' d)"
    using w S unfolding walk_inv_def table_step_def by metis
  ultimately show ?thesis by (simp add: walk_inv_def)
qed

lemma loop_walk:
  assumes "walk_inv s" "tables_inv s U k" "\<forall>c\<in>slots. pde t c = pde s c \<or> table_entry (pde t c)"
    "same_page (pdpt s) (mem s) (mem t)" "page_directories t = page_directories s" "pdpt t = pdpt s"
  shows "walk_inv t"
proof -
  have "page_aligned (pdpt s)" using inv_aligned [OF assms(2)] inv_dirs(1) [OF assms(2)] by (auto simp: dirs_ok_def)
  then have "get_entry (pdpt s) i t = get_entry (pdpt s) i s" if "unat i < 4" for i
    using assms(4) that by (intro get_entry_same) auto
  then have "pdpt_ok t" using assms(1,5,6) by (auto simp: walk_inv_def pdpt_ok_def)
  moreover have "\<forall>d\<in>slots. present (pde t d) \<longrightarrow> table_entry (pde t d)"
    using assms(1,3) unfolding walk_inv_def by metis
  ultimately show ?thesis by (simp add: walk_inv_def)
qed

end
