(* ===== verification/PMM_Source.thy ===== *)
theory PMM_Source
  imports PMM_Report Page_Source
begin

text \<open>The bitmap allocator fulfils the contract of a page source, one page at a time.\<close>

definition pmm_owns :: "'a pmm_scheme \<Rightarrow> u32 set \<Rightarrow> nat \<Rightarrow> bool" where
  "pmm_owns s U n \<longleftrightarrow> pmm_inv s \<and> U \<subseteq> managed_addr ` ({1..<4096} - pmm_free_set s) \<and> n \<le> card (pmm_free_set s)"

lemma managed_addr_inj:
  assumes "p < 4096" "q < 4096"
  shows "managed_addr p = managed_addr q \<longleftrightarrow> p = q"
proof
  assume "managed_addr p = managed_addr q"
  then have "unat (managed_addr p) = unat (managed_addr q)" by (simp only:)
  then show "p = q" using assms by (simp add: unat_managed_addr)
qed simp

lemma pmm_page_free: "pmm_inv s \<Longrightarrow> pmm_free_set s \<subseteq> {1..<4096}"
proof
  fix p assume i: "pmm_inv s" and p: "p \<in> pmm_free_set s"
  then have "p \<noteq> 0" by (cases "p = 0") (simp_all add: pmm_inv_def)
  then show "p \<in> {1..<4096}" using free_bits_bound [OF p] by simp
qed

lemma pmm_page_in_block: "q < 4096 \<Longrightarrow> in_range (managed_addr q) (4096 * 1) x \<longleftrightarrow> page_no x = page_no (managed_addr q)"
  using in_block_pages [of q 1 x] by (auto simp: word_unat_eq_iff page_no_managed_addr)

lemma pmm_alloc_page_block:
  assumes "pmm_owns s U (Suc n)" "pmm_alloc_page s = (p, s')"
  obtains q where "p = managed_addr q" "q \<in> pmm_free_set s" "pmm_free_set s' = pmm_free_set s - {q}" "pmm_inv s'"
    "\<forall>x. page_no x = page_no p \<longrightarrow> mem s' x = 0"
    "\<forall>x. page_no x \<noteq> page_no p \<and> page_no x \<noteq> 0x1020 \<longrightarrow> mem s' x = mem s x"
proof -
  have inv: "pmm_inv s" and "pmm_free_set s \<noteq> {}" using assms(1) by (auto simp: pmm_owns_def)
  then obtain a where "a \<in> pmm_free_set s" by blast
  then have "{a..<a + unat (1 :: u32)} \<subseteq> pmm_free_set s" by auto
  moreover have "unat (pmm_last_allocated s) \<le> a \<or> a + unat (1 :: u32) \<le> unat (pmm_last_allocated s)" by auto
  ultimately have "fst (pmm_alloc_pages 1 s) \<noteq> 0" by (intro alloc_available [OF inv]) simp_all
  then have nn: "p \<noteq> 0" using assms(2) by (simp add: pmm_alloc_page_def)
  from alloc_result [OF inv assms(2) [unfolded pmm_alloc_page_def] nn]
  obtain q where q: "p = managed_addr q" "q + unat (1 :: u32) \<le> 4096" "{q..<q + unat (1 :: u32)} \<subseteq> pmm_free_set s"
    "pmm_free_set s' = pmm_free_set s - {q..<q + unat (1 :: u32)}" "pmm_inv s'"
    "\<forall>x. in_range p (4096 * unat (1 :: u32)) x \<longrightarrow> mem s' x = 0"
    "\<forall>x. \<not> in_range p (4096 * unat (1 :: u32)) x \<and> page_no x \<noteq> 0x1020 \<longrightarrow> mem s' x = mem s x" by metis
  have "in_range p (4096 * unat (1 :: u32)) x \<longleftrightarrow> page_no x = page_no p" for x
    using pmm_page_in_block [of q x] q(1,2) by simp
  then show ?thesis using that [of q] q by auto
qed

lemma pmm_alloc_owns:
  assumes "pmm_owns s U (Suc n)" "pmm_alloc_page s = (p, s')"
  shows "p \<notin> U \<and> pmm_owns s' (insert p U) n"
proof -
  obtain q where q: "p = managed_addr q" "q \<in> pmm_free_set s" "pmm_free_set s' = pmm_free_set s - {q}" "pmm_inv s'"
    using pmm_alloc_page_block [OF assms] by metis
  have U: "U \<subseteq> managed_addr ` ({1..<4096} - pmm_free_set s)" "Suc n \<le> card (pmm_free_set s)"
    and fs: "pmm_free_set s \<subseteq> {1..<4096}" using assms(1) pmm_page_free by (auto simp: pmm_owns_def)
  have q': "q \<in> {1..<4096}" using q(2) fs by blast
  have "p \<notin> U"
  proof
    assume "p \<in> U"
    then obtain q2 where "q2 \<in> {1..<4096}" "q2 \<notin> pmm_free_set s" "managed_addr q = managed_addr q2"
      using U(1) q(1) by auto
    then show False using q(2) q' managed_addr_inj [of q q2] by auto
  qed
  moreover have "pmm_owns s' (insert p U) n" using U q q' by (auto simp: pmm_owns_def card_Diff_singleton)
  ultimately show ?thesis by blast
qed

lemma pmm_owned_off_bitmap:
  assumes "pmm_owns s U n" "q \<in> U" "page_no x = page_no q"
  shows "page_no x \<noteq> 0x1020"
proof -
  obtain r where "q = managed_addr r" "1 \<le> r" "r < 4096" using assms(1,2) by (auto simp: pmm_owns_def)
  then have "unat (page_no x) = 0x1020 + r" using assms(3) by (simp add: page_no_managed_addr)
  then show ?thesis using \<open>1 \<le> r\<close> by auto
qed

lemma pmm_free_page_owns:
  assumes "pmm_owns s (insert p U) n" "p \<notin> U"
  shows "pmm_owns (snd (pmm_free_page p s)) U (Suc n)"
    "q \<in> U \<Longrightarrow> same_page q (mem s) (mem (snd (pmm_free_page p s)))"
proof -
  have inv: "pmm_inv s" using assms(1) by (simp add: pmm_owns_def)
  obtain r where r: "p = managed_addr r" "1 \<le> r" "r < 4096" "r \<notin> pmm_free_set s"
    using assms(1) by (auto simp: pmm_owns_def)
  have e: "pmm_free_pages (managed_addr r) 1 s = (fst (pmm_free_page p s), snd (pmm_free_page p s))"
    by (simp add: pmm_free_page_def r(1))
  note F = free_block_inv_iff [OF inv _ _ e]
  have f: "pmm_free_set (snd (pmm_free_page p s)) = insert r (pmm_free_set s)" using F(2) r by simp
  have i: "pmm_inv (snd (pmm_free_page p s))" using F(3) r by simp
  have "U \<subseteq> managed_addr ` ({1..<4096} - insert r (pmm_free_set s))"
    using assms r(1) by (auto simp: pmm_owns_def)
  then show "pmm_owns (snd (pmm_free_page p s)) U (Suc n)"
    using assms(1) f i r(4) by (simp add: pmm_owns_def)
  assume "q \<in> U"
  then have "page_no x = page_no q \<Longrightarrow> page_no x \<noteq> 0x1020" for x
    using pmm_owned_off_bitmap [OF assms(1), of q x] by blast
  then show "same_page q (mem s) (mem (snd (pmm_free_page p s)))" using F(4) r(3) by (simp add: same_page_def)
qed

interpretation pmm_source: page_allocator pmm_alloc_page mem "\<lambda>m s. s\<lparr>mem := m\<rparr>" pmm_owns
  "\<lambda>p s. snd (pmm_free_page p s)"
proof unfold_locales
  fix s :: "'a pmm_scheme" and U n q
  assume "pmm_owns s U n" "q \<in> U"
  then obtain r where "q = managed_addr r" "r < 4096" by (auto simp: pmm_owns_def)
  then show "page_aligned q \<and> q \<noteq> 0" using page_aligned_managed_addr managed_addr_nonnull by simp
next
  fix s s' :: "'a pmm_scheme" and U n p q
  assume a: "pmm_owns s U (Suc n)" "pmm_alloc_page s = (p, s')" and q: "q \<in> U"
  have "p \<notin> U" using pmm_alloc_owns [OF a] by blast
  moreover have "page_aligned q" using a(1) q page_aligned_managed_addr by (auto simp: pmm_owns_def)
  moreover obtain r where "p = managed_addr r" "\<forall>x. page_no x \<noteq> page_no p \<and> page_no x \<noteq> 0x1020 \<longrightarrow> mem s' x = mem s x"
    using pmm_alloc_page_block [OF a] by metis
  ultimately show "same_page q (mem s) (mem s')"
    using q pmm_owned_off_bitmap [OF a(1) q] page_no_eq [of q p] page_aligned_managed_addr by (auto simp: same_page_def)
next
  fix s :: "'a pmm_scheme" and U n q m
  assume o: "pmm_owns s U n" "q \<in> U" and m: "\<forall>x. page_no x \<noteq> page_no q \<longrightarrow> m x = mem s x"
  have "page_no x = 0x1020 \<Longrightarrow> m x = mem s x" for x using m pmm_owned_off_bitmap [OF o, of x] by metis
  moreover have "pmm_layout s" "pmm_inv s" using o(1) by (simp_all add: pmm_owns_def pmm_inv_def)
  ultimately show "pmm_owns (s\<lparr>mem := m\<rparr>) U n"
    using o(1) pmm_inv_cong [of s "s\<lparr>mem := m\<rparr>"] free_set_page_cong [of s "s\<lparr>mem := m\<rparr>"] by (simp add: pmm_owns_def)
next
  fix s s' :: "'a pmm_scheme" and U n p x
  assume a: "pmm_owns s U (Suc n)" "pmm_alloc_page s = (p, s')" and "page_no x = page_no p"
  then show "mem s' x = 0" using pmm_alloc_page_block [OF a] by metis
qed (simp_all add: pmm_alloc_owns pmm_free_page_owns)

end
