(* ===== verification/Paging_Props.thy ===== *)
theory Paging_Props
  imports Paging_Walk PMM_Source
begin

text \<open>
  The properties of the paging code. The witnesses run it from power on.
\<close>

section \<open>From power on to a mapped address space\<close>

text \<open>The paging code's static variables at their initial values, the heap's pool untouched.\<close>

definition fresh_paging :: "'a paging_scheme \<Rightarrow> bool" where
  "fresh_paging s \<longleftrightarrow> free_list_head s = 0 \<and> next_free_page s = HEAP_START + HEAP_SIZE \<and>
     page_directories s = replicate 4 0"

definition paging_power_on :: "memory \<Rightarrow> paging" where
  "paging_power_on m = pmm.extend (pmm_power_on m)
     (paging.fields 0 (replicate 4 0) 0 (HEAP_START + HEAP_SIZE) 0 0)"

lemma fresh_power_on: "fresh_paging (paging_power_on m)" "kout (paging_power_on m) = []" "mem (paging_power_on m) = m"
  by (simp_all add: fresh_paging_def paging_power_on_def pmm_power_on_def pmm.extend_def paging.fields_def)

lemma fresh_pool:
  assumes "fresh_paging s"
  shows "pool_inv s [] {}" "1024 \<le> bump_room s" "length (page_directories s) = 4" "next_free_page s = 0x1020000"
    "bump_room s = 1044447"
  using assms by (simp_all add: fresh_paging_def pool_inv_def bump_room_def)

lemma identity_pte_facts: "present (identity_pte v)" "page_aligned p \<Longrightarrow> entry_base (ucast p OR 3) = ucast p"
proof -
  have "bit (identity_pte v) 0" by (simp add: identity_pte_def bit_simps)
  then show "present (identity_pte v)" by (simp add: present_iff bit_0)
  show "page_aligned p \<Longrightarrow> entry_base (ucast p OR 3) = ucast p" using entry_base_of [of p 3] by simp
qed

lemma page_aligned_push: "page_aligned (push_bit 12 v)"
  by (simp add: aligned_def take_bit_push_bit)

lemma identity_leaf: "entry_base (identity_pte (page_no va)) OR ucast (take_bit 12 va) = ucast va"
proof -
  have "entry_base (identity_pte (page_no va)) = ucast (push_bit 12 (page_no va))"
    unfolding identity_pte_def by (rule identity_pte_facts(2) [OF page_aligned_push])
  moreover have "ucast (push_bit 12 (page_no va)) OR ucast (take_bit 12 va) = (ucast va :: u64)"
    by (rule bit_word_eqI) (auto simp: page_no_def bit_simps dest: bit_imp_le_length)
  ultimately show ?thesis by simp
qed

lemma mapped_state:
  fixes s :: "'a paging_scheme"
  assumes fr: "fresh_paging s"
  defines "t \<equiv> setup_kernel_heap (setup_identity_mapping (paging_init s))"
  shows "\<exists>U. tables_inv t U 1044000" "walk_inv t" "says s t"
    "\<forall>v. drop_bit 9 v \<in> slots \<longrightarrow> pte t v = (if unat v < 8192 then identity_pte v else 0)"
    "pdpt t = 0x141F000" "\<forall>c\<in>slots. present (pde t c) \<longleftrightarrow> unat c < 16"
proof -
  note F = fresh_pool [OF fr]
  define t1 where "t1 = paging_init s"
  note I = paging_init_state [OF F(1,2,3), unfolded F(4,5), simplified, folded t1_def]
  note R = init_loop_result [OF I(1)]
  define u1 where "u1 = printk ''Setting up identity mapping for first 32MB...\<newline>'' [] t1"
  have inv1: "tables_inv u1 (pool_owned 0x1020000 1019) (Suc (tables_for 8192 + 1044000))"
    using R(4) by (auto simp: u1_def tables_for_def intro: inv_weaken)
  have z1: "\<forall>c\<in>slots. \<not> present (pde u1 c)" using R(3) by (simp add: u1_def present_def)
  have "walk_inv t1" using R(2,3) by (simp add: walk_inv_def present_def)
  then have w1: "walk_inv u1" by (simp add: u1_def)
  define t2 where "t2 = fold (\<lambda>k. map_identity (of_nat k * 4096)) [0..<8192] u1"
  note L = identity_loop [OF inv1 z1, folded t2_def, simplified]
  have e2: "setup_identity_mapping t1 = printk ''Identity mapping complete (32MB mapped).\<newline>'' [] t2"
    unfolding setup_identity_mapping_def Let_def u1_def [symmetric]
    using for_pages_fold [of "0x2000000" 0 8192 0 u1] by (simp add: t2_def)
  have w2: "walk_inv t2" by (rule loop_walk [OF w1 inv1 L(4,5,7,8)])
  obtain U2 where inv2: "tables_inv t2 U2 (Suc 1044000)" using L(1) by auto
  define u2 where "u2 = printk ''Setting up kernel heap at 0x%x (size: 0x%x)\<newline>'' [KInt 0x20000, KInt 0x1000000] (setup_identity_mapping t1)"
  have inv2': "tables_inv u2 U2 (Suc 1044000)" and w2': "walk_inv u2" using inv2 w2 by (simp_all add: u2_def e2)
  have p2: "\<forall>c\<in>slots. unat c * 512 < 0x20 + 4096 \<longrightarrow> present (pde u2 c)" using L(2) by (simp add: u2_def e2)
  define t3 where "t3 = fold (\<lambda>k. map_identity (of_nat (0x20 + k) * 4096)) [0..<4096] u2"
  note H = present_loop [OF inv2' p2, folded t3_def, simplified]
  have e3: "t = t3"
  proof -
    have a: "(0x20000 + 0x1000000 - 0x20000 + 4095) div 4096 = (of_nat 4096 :: u32)" "(4096 :: nat) < 4294967296"
      "(0x20000 :: u32) = of_nat 0x20 * 4096" by simp_all
    show ?thesis unfolding t_def t1_def [symmetric] setup_kernel_heap_def Let_def u2_def [symmetric]
      for_pages_fold [OF a] t3_def ..
  qed
  obtain U3 where inv3: "tables_inv t3 U3 (Suc 1044000)" using H(1) by auto
  show "\<exists>U. tables_inv t U 1044000" using inv_weaken [OF inv3, of 1044000] by (auto simp: e3)
  show "walk_inv t" unfolding e3 by (rule loop_walk [OF w2' inv2' H(4,5,7,8)])
  show "pdpt t = 0x141F000"
    using H(8) L(8) I(1) by (simp add: e3 u2_def e2 u1_def init_loop_inv_def pool_addr_def)
  show "\<forall>v. drop_bit 9 v \<in> slots \<longrightarrow> pte t v = (if unat v < 8192 then identity_pte v else 0)"
    using H(3) L(3) by (auto simp: e3 u2_def e2)
  show "\<forall>c\<in>slots. present (pde t c) \<longleftrightarrow> unat c < 16" using H(2) L(2) by (auto simp: e3 u2_def e2)
  have "says s u1" unfolding u1_def by (rule says_emit [OF I(2)]) (simp add: call_simps)
  then have "says s t2" by (rule says_keep) (rule L(6))
  then have "says s u2" unfolding u2_def e2 by (intro says_emit) (simp_all add: call_simps)
  then show "says s t" unfolding e3 by (rule says_keep) (rule H(6))
qed

lemma enable_fields:
  "mem (enable_pae_paging s) = mem s" "cr3 (enable_pae_paging s) = pdpt s" "pdpt (enable_pae_paging s) = pdpt s"
  "cr0 (enable_pae_paging s) = (cr0 s AND NOT 0x80000000) OR 0x80000000" "cr4 (enable_pae_paging s) = cr4 s OR 0x20"
  "io (enable_pae_paging s) = io s @ [SetCr0 (cr0 s AND NOT 0x80000000), SetCr4 (cr4 s OR 0x20), SetCr3 (pdpt s),
     SetCr0 ((cr0 s AND NOT 0x80000000) OR 0x80000000)]"
  by (simp_all add: enable_pae_paging_def Let_def set_cr0_def set_cr3_def enable_pae_def set_cr4_def enable_paging_bit_def)

lemma bit_at_5: "bit ((x :: u32) OR 0x20) 5"
  using bit_one_at [of 5 5] by (simp add: bit_or_iff)

lemma bit_at_31: "bit ((x :: u32) OR 0x80000000) 31"
  using bit_one_at [of 31 31] by (simp add: bit_or_iff)

text \<open>C3: paging as \<open>kernel_main\<close> sets it up, from static variables at their initial values and
  whatever memory holds: the processor's walk from CR3 translates every address below 32 MB
  to itself and no other address at all, with PAE and paging enabled.\<close>
theorem paging_setup_translates:
  assumes "fresh_paging s"
  defines "t \<equiv> enable_pae_paging (setup_kernel_heap (setup_identity_mapping (paging_init s)))"
  shows "(\<forall>va. pae_walk (mem t) (cr3 t) va = (if unat va < 0x2000000 then Some (ucast va) else None)) \<and>
    bit (cr4 t) 5 \<and> bit (cr0 t) 31"
proof -
  define u where "u = setup_kernel_heap (setup_identity_mapping (paging_init s))"
  note M = mapped_state [OF assms(1), folded u_def]
  obtain U where inv: "tables_inv u U 1044000" using M(1) by blast
  have "pae_walk (mem u) (pdpt u) va = (if unat va < 0x2000000 then Some (ucast va) else None)" for va
  proof -
    have p: "pte u (page_no va) = (if unat (page_no va) < 8192 then identity_pte (page_no va) else 0)"
      using M(4) slot_of_va by blast
    have b: "unat (page_no va) < 8192 \<longleftrightarrow> unat va < 0x2000000" unfolding unat_page_no by linarith
    have "\<not> present 0" by (simp add: present_def)
    then show ?thesis unfolding pae_walk_leaf [OF inv M(2)] p b by (simp add: identity_pte_facts(1) identity_leaf)
  qed
  moreover have "mem t = mem u" "cr3 t = pdpt u" by (simp_all add: t_def u_def enable_fields)
  ultimately show ?thesis by (simp add: t_def enable_fields bit_at_5 bit_at_31)
qed

theorem paging_setup_translates_witness:
  "pae_walk (mem (enable_pae_paging (setup_kernel_heap (setup_identity_mapping (paging_init (paging_power_on (\<lambda>_. 0)))))))
     (cr3 (enable_pae_paging (setup_kernel_heap (setup_identity_mapping (paging_init (paging_power_on (\<lambda>_. 0))))))) 0xB8000 = Some 0xB8000"
  using paging_setup_translates [OF fresh_power_on(1)] by simp

section \<open>Mapping and unmapping\<close>

definition paging_booted :: paging where
  "paging_booted = setup_kernel_heap (setup_identity_mapping (paging_init (paging_power_on (\<lambda>_. 0))))"

lemma booted_tables: "\<exists>U. tables_inv paging_booted U 1044000" "walk_inv paging_booted"
  unfolding paging_booted_def by (rule mapped_state [OF fresh_power_on(1)])+

lemma page_no_slots: "drop_bit 9 (page_no va) \<in> slots"
  by (rule slot_of_va)

text \<open>\<open>map_page\<close> on well-formed tables succeeds, keeps them well formed (taking at most one
  page from the pool), makes exactly the pages of the given virtual page read as the given
  frame and flags, leaves every other translation as it was, and changes no byte of a page in
  use that is not a table.\<close>
theorem map_page_correct:
  assumes "tables_inv s U (Suc n)" "map_page va pa flags s = (r, s')"
  shows "r = 0 \<and> (\<exists>U'. U \<subseteq> U' \<and> tables_inv s' U' n) \<and>
    (\<forall>va'. get_physical_addr va' s' =
      (if page_no va' = page_no va
       then (if present (pa OR ucast flags) then ((pa OR ucast flags) AND 0xFFFFF000) OR ucast (take_bit 12 va') else 0)
       else get_physical_addr va' s)) \<and>
    (\<forall>q\<in>U. q \<notin> tables s \<longrightarrow> same_page q (mem s) (mem s'))"
proof -
  note M = map_page_step [OF assms]
  obtain U' where S: "table_step (drop_bit 21 va) (\<lambda>v e. if v = page_no va then pa OR ucast flags else e) s U n s' U'"
    using M(3) by blast
  have inv': "tables_inv s' U' n" using S inv_weaken [of s' U' "Suc n" n] by (auto simp: table_step_def split: if_splits)
  have "pte s' (page_no va') = (if page_no va' = page_no va then pa OR ucast flags else pte s (page_no va'))" for va'
    using S page_no_slots [of va'] unfolding table_step_def by blast
  then show ?thesis using M(1) S inv' get_physical_addr_eq [OF assms(1)] get_physical_addr_eq [OF inv']
    unfolding table_step_def by auto
qed

theorem map_page_correct_witness:
  "get_physical_addr 0xC0000123 (snd (map_page 0xC0000000 0x5000 3 paging_booted)) = 0x5123"
proof -
  obtain U where inv: "tables_inv paging_booted U (Suc 1043999)" using booted_tables(1) by auto
  obtain r s' where c: "map_page 0xC0000000 0x5000 3 paging_booted = (r, s')" by fastforce
  have "page_no 0xC0000123 = page_no 0xC0000000" by (simp add: page_no_def)
  moreover have "present (0x5000 OR ucast (3 :: u32))" by (simp add: present_def)
  ultimately show ?thesis using map_page_correct [OF inv c] c by (simp add: take_bit_eq_mod)
qed

text \<open>C5: after \<open>map_page\<close> the processor translates the virtual page to the frame, and every
  other address as before: a new page table never disturbs a translation.\<close>
theorem map_page_translates:
  assumes "tables_inv s U (Suc n)" "walk_inv s" "map_page va pa flags s = (r, s')"
  shows "walk_inv s' \<and> pae_walk (mem s') (pdpt s') va' =
    (if page_no va' = page_no va
     then (if present (pa OR ucast flags) then Some (entry_base (pa OR ucast flags) OR ucast (take_bit 12 va')) else None)
     else pae_walk (mem s) (pdpt s) va')"
proof -
  obtain U' where S: "table_step (drop_bit 21 va) (\<lambda>v e. if v = page_no va then pa OR ucast flags else e) s U n s' U'"
    using map_page_step(3) [OF assms(1,3)] by blast
  have inv': "tables_inv s' U' n" using S inv_weaken [of s' U' "Suc n" n] by (auto simp: table_step_def split: if_splits)
  have w: "walk_inv s'" by (rule table_step_walk [OF assms(2,1) S])
  have "pte s' (page_no va') = (if page_no va' = page_no va then pa OR ucast flags else pte s (page_no va'))"
    using S page_no_slots [of va'] unfolding table_step_def by blast
  then show ?thesis using w pae_walk_leaf [OF assms(1,2)] pae_walk_leaf [OF inv' w]
    by (cases "page_no va' = page_no va") simp_all
qed

theorem map_page_translates_witness:
  "pae_walk (mem (snd (map_page 0xC0000000 0x5000 3 paging_booted))) (pdpt (snd (map_page 0xC0000000 0x5000 3 paging_booted)))
     0xC0000123 = Some 0x5123"
proof -
  obtain U where inv: "tables_inv paging_booted U (Suc 1043999)" using booted_tables(1) by auto
  obtain r s' where c: "map_page 0xC0000000 0x5000 3 paging_booted = (r, s')" by fastforce
  have "page_no 0xC0000123 = page_no 0xC0000000" by (simp add: page_no_def)
  moreover have "present (0x5000 OR ucast (3 :: u32))" by (simp add: present_def)
  ultimately show ?thesis using map_page_translates [OF inv booted_tables(2) c] c
    by (simp add: take_bit_eq_mod entry_base_def)
qed

text \<open>C19: \<open>get_physical_addr\<close> is the processor's translation cut to 32 bits, and 0 where there
  is none: it is right exactly for frames below 4 GB, although entries hold 52 bits.\<close>
theorem get_physical_addr_truncates:
  assumes "tables_inv s U n" "walk_inv s"
  shows "get_physical_addr va s = (case pae_walk (mem s) (pdpt s) va of None \<Rightarrow> 0 | Some p \<Rightarrow> take_bit 32 p)"
proof -
  have "(e AND 0xFFFFF000) OR ucast (take_bit 12 va) = take_bit 32 (entry_base e OR ucast (take_bit 12 va))" for e :: u64
  proof (rule bit_word_eqI)
    fix n assume n: "n < LENGTH(64)"
    have m: "(0xFFFFF000 :: u64) = push_bit 12 (mask 20)" "(0x000FFFFFFFFFF000 :: u64) = push_bit 12 (mask 40)"
      by (simp_all add: mask_eq_exp_minus_1 push_bit_eq_mult)
    show "bit ((e AND 0xFFFFF000) OR ucast (take_bit 12 va)) n = bit (take_bit 32 (entry_base e OR ucast (take_bit 12 va))) n"
      unfolding entry_base_def m using n by (auto simp: bit_simps)
  qed
  then show ?thesis unfolding pae_walk_leaf [OF assms] get_physical_addr_eq [OF assms(1)] by simp
qed

theorem get_physical_addr_truncates_witness:
  "get_physical_addr 0xB8000 paging_booted =
     (case pae_walk (mem paging_booted) (pdpt paging_booted) 0xB8000 of None \<Rightarrow> 0 | Some p \<Rightarrow> take_bit 32 p)"
proof -
  obtain U where "tables_inv paging_booted U 1044000" using booted_tables(1) by blast
  then show ?thesis by (rule get_physical_addr_truncates [OF _ booted_tables(2)])
qed

text \<open>C18: \<open>unmap_page\<close> removes exactly the translations of the given page when its page table is
  present, and otherwise reports an error and changes nothing; it frees no table.\<close>
theorem unmap_page_correct:
  assumes "tables_inv s U n" "unmap_page va s = (r, s')"
  shows "(if present (pde s (drop_bit 21 va))
     then r = 0 \<and> tables_inv s' U n \<and> io s' = io s @ [Invlpg va] \<and>
       (\<forall>va'. get_physical_addr va' s' = (if page_no va' = page_no va then 0 else get_physical_addr va' s))
     else r = - 1 \<and> s' = s \<and> get_physical_addr va s = 0)"
proof (cases "present (pde s (drop_bit 21 va))")
  case True
  note M = unmap_page_step [OF assms(1) True assms(2)]
  have "pte s' (page_no va') = (if page_no va' = page_no va then 0 else pte s (page_no va'))" for va'
    using M(4) page_no_slots by blast
  moreover have "\<not> present 0" by (simp add: present_def)
  ultimately show ?thesis using True M(1,2,3) get_physical_addr_eq [OF assms(1)] get_physical_addr_eq [OF M(2)] by simp
next
  case False
  then have "pte s (page_no va) = 0" by (simp add: pte_def drop_page_no)
  then show ?thesis using False assms(2) unmap_page_eq [OF assms(1), of va] get_physical_addr_eq [OF assms(1), of va]
    by (simp add: present_def)
qed

theorem unmap_page_correct_witness:
  "get_physical_addr 0xB8000 (snd (unmap_page 0xB8000 paging_booted)) = 0"
proof -
  obtain U where inv: "tables_inv paging_booted U 1044000" using booted_tables(1) by blast
  obtain r s' where c: "unmap_page 0xB8000 paging_booted = (r, s')" by fastforce
  show ?thesis using unmap_page_correct [OF inv c] c by (auto split: if_splits)
qed

text \<open>Where no page directory is installed, as before \<open>paging_init\<close>, mapping reports an error
  and only prints, unmapping reports an error, and every address looks up as 0.\<close>
theorem paging_without_directory:
  assumes "page_directory (virtual_addr va) s = NULL"
  shows "map_page va pa flags s =
      (- 1, printk ''ERROR: No page directory for PDPT index %d\<newline>'' [KInt (drop_bit 30 va)] s) \<and>
    unmap_page va s = (- 1, s) \<and> get_physical_addr va s = 0"
  using assms by (simp add: map_page_def unmap_page_def get_physical_addr_def Let_def virtual_addr_def)

theorem paging_without_directory_witness:
  "fst (map_page 0x1000 0x1000 3 (paging_power_on (\<lambda>_. 0))) = - 1"
proof -
  have "page_directory (virtual_addr 0x1000) (paging_power_on (\<lambda>_. 0)) = 0"
    using fresh_power_on(1) by (simp add: page_directory_def virtual_addr_def fresh_paging_def)
  from paging_without_directory [OF this] show ?thesis by simp
qed

section \<open>The page allocator of the paging code\<close>

lemma booted_pool:
  "pool_inv (paging_init (paging_power_on m)) (pool_list 0x1020000 1019) (pool_owned 0x1020000 1019)"
  using paging_init_state(1) [OF fresh_pool(1,2,3) [OF fresh_power_on(1)]] fresh_pool(4) [OF fresh_power_on(1)]
  by (simp add: init_loop_inv_def)

text \<open>\<open>allocate_physical_page\<close> hands out a page nobody owns: page aligned, not null, all zero,
  with every page in use untouched, and the invariant of the pool is kept with the page owned;
  the list of free pages loses its head, or the pool grows by one page when it is empty.\<close>
theorem allocate_physical_page_fresh:
  assumes "pool_inv s ps U" "0 < length ps + bump_room s" "allocate_physical_page s = (p, s')"
  shows "page_aligned p \<and> p \<noteq> NULL \<and> p \<notin> U \<and> pool_inv s' (tl ps) (insert p U) \<and>
    p = (if ps = [] then next_free_page s else hd ps) \<and>
    (\<forall>x. mem s' x = (if page_no x = page_no p then 0 else mem s x))"
proof (cases ps)
  case Nil
  then have b: "0 < bump_room s" "pool_inv s [] U" using assms(1,2) by simp_all
  note A = pool_alloc_bump [OF b(2,1)]
  have "p = next_free_page s" "s' = pool_bump s" using A(1) assms(3) by (auto simp: allocate_physical_page_def)
  then show ?thesis using A Nil b(2) by (simp add: pool_inv_def pool_bump_def zero_page)
next
  case (Cons q qs)
  note A = pool_alloc_list [OF assms(1) [unfolded Cons]]
  have "p = q" "s' = pool_take q s" using A(1) assms(3) by (auto simp: allocate_physical_page_def)
  moreover have "page_aligned q \<and> q \<noteq> 0 \<and> q \<notin> U" using assms(1) Cons by (simp add: pool_inv_def pool_page_def)
  moreover have "mem (pool_take q s) x = (if page_no x = page_no q then 0 else mem s x)" if "page_aligned q" for x
    using that by (simp add: pool_take_def zero_page)
  ultimately show ?thesis using A(2) Cons by simp
qed

theorem allocate_physical_page_fresh_witness:
  "fst (allocate_physical_page (paging_init (paging_power_on (\<lambda>_. 0)))) = 0x141A000"
proof -
  define s where "s = paging_init (paging_power_on (\<lambda>_. 0))"
  obtain p s' where a: "allocate_physical_page s = (p, s')" by fastforce
  have c: "pool_list 0x1020000 1019 = pool_addr 0x1020000 1018 # pool_list 0x1020000 1018"
    using pool_list_Suc [of _ 1018] by simp
  show ?thesis using allocate_physical_page_fresh [OF booted_pool [of "\<lambda>_. 0", folded s_def] _ a] a
    by (simp add: s_def c pool_addr_def)
qed

text \<open>C23: releasing an owned page puts it at the head of the list, and the next allocation returns
  it, zeroed, with the rest of the list and every other page in use as they were.\<close>
theorem free_allocate_roundtrip:
  assumes "pool_inv s ps (insert p U)" "p \<notin> U" "allocate_physical_page (free_physical_page p s) = (q, s')"
  shows "pool_inv (free_physical_page p s) (p # ps) U \<and> q = p \<and> pool_inv s' ps (insert p U) \<and>
    (\<forall>u\<in>U. same_page u (mem s) (mem s')) \<and>
    total_pages_allocated s' - total_pages_freed s' = total_pages_allocated s - total_pages_freed s"
proof -
  note R = pool_release_inv [OF assms(1,2)]
  note A = pool_alloc_list [OF R(1)]
  have e: "q = p" "s' = pool_take p (add_to_free_list p s)"
    using A(1) assms(3) by (auto simp: allocate_physical_page_def free_physical_page_def)
  have "same_page u (mem s) (mem s')" if "u \<in> U" for u
  proof -
    have "page_aligned p" "page_aligned u" "u \<noteq> p" using assms(1,2) that by (auto simp: pool_inv_def pool_page_def)
    then show ?thesis using R(2) [OF that] same_page_zero [of u p]
      by (auto simp: e pool_take_def intro: same_page_trans)
  qed
  moreover have "p \<noteq> 0 \<and> p AND 4095 = 0" using assms(1) by (simp add: pool_inv_def pool_page_def aligned_mask)
  then have "total_pages_freed (add_to_free_list p s) = total_pages_freed s + 1"
    "total_pages_allocated (add_to_free_list p s) = total_pages_allocated s"
    by (simp_all add: add_to_free_list_def Let_def)
  ultimately show ?thesis using R(1) A(2) by (simp add: e free_physical_page_def pool_take_def)
qed

theorem free_allocate_roundtrip_witness:
  "fst (allocate_physical_page (free_physical_page 0x141B000 (paging_init (paging_power_on (\<lambda>_. 0))))) = 0x141B000"
proof -
  define s where "s = paging_init (paging_power_on (\<lambda>_. 0))"
  have "pool_owned 0x1020000 1019 = insert 0x141B000 (pool_owned 0x1020000 1020)"
    using pool_owned_step [of 1019 "0x1020000"] by (simp add: pool_addr_def)
  then have i: "pool_inv s (pool_list 0x1020000 1019) (insert 0x141B000 (pool_owned 0x1020000 1020))"
    using booted_pool [of "\<lambda>_. 0"] by (simp add: s_def)
  have "pool_addr 0x1020000 1019 \<notin> pool_owned 0x1020000 1020"
    unfolding pool_owned_def by (auto simp: pool_addr_inj)
  then have n: "0x141B000 \<notin> pool_owned 0x1020000 1020" by (simp add: pool_addr_def)
  obtain q s' where a: "allocate_physical_page (free_physical_page 0x141B000 s) = (q, s')" by fastforce
  then show ?thesis using free_allocate_roundtrip [OF i n a] by (simp add: s_def)
qed

text \<open>C24: releasing the same page twice in a row ties the list into a loop: every later
  \<open>get_memory_stats\<close> gives up counting, and the next two allocations hand out the same page.\<close>
theorem double_free_aliases:
  fixes s :: "'a paging_scheme"
  assumes "page_aligned p" "p \<noteq> NULL"
  defines "t \<equiv> free_physical_page p (free_physical_page p s)"
  shows "free_list_count (mem t) (free_list_head t) 0 = None \<and>
    fst (allocate_physical_page t) = p \<and> fst (allocate_physical_page (snd (allocate_physical_page t))) = p"
proof -
  note D = double_release [OF assms(1,2), of s, folded free_physical_page_def, folded t_def]
  have "free_list_count (mem t) p 0 = None" using free_list_count_cycle [OF D(2) assms(2), of 10000] by simp
  moreover have "allocate_from_free_list t = (p, pool_take p t)"
    using D assms(2) by (simp add: allocate_from_free_list_def Let_def pool_take_def)
  moreover have "free_list_head (pool_take p t) = p" using D(2) by (simp add: pool_take_def)
  ultimately show ?thesis using D assms(2) by (simp add: allocate_physical_page_def) (simp add: allocate_from_free_list_def Let_def)
qed

theorem double_free_aliases_witness:
  "fst (allocate_physical_page (free_physical_page 0x1030000 (free_physical_page 0x1030000 (paging_power_on (\<lambda>_. 0))))) = 0x1030000"
proof -
  have "page_aligned 0x1030000" by (simp add: aligned_def)
  from double_free_aliases [OF this, of "paging_power_on (\<lambda>_. 0)"] show ?thesis by simp
qed



text \<open>C27: both page allocators of the kernel fulfil the same contract: any number of pages taken in
  a row, as many as the free set or the pool holds, are distinct, were owned by nobody, and
  every page in use keeps its contents.\<close>
theorem allocators_take_distinct:
  assumes "pmm_owns s U (k + n)" "pmm_source.take_pages k s = (ps, s')"
    "pool_owns t V (k + n)" "pool.take_pages k t = (qs, t')"
  shows "distinct ps \<and> length ps = k \<and> set ps \<inter> U = {} \<and> pmm_owns s' (set ps \<union> U) n \<and> (\<forall>q\<in>U. same_page q (mem s) (mem s')) \<and>
    distinct qs \<and> length qs = k \<and> set qs \<inter> V = {} \<and> pool_owns t' (set qs \<union> V) n \<and> (\<forall>q\<in>V. same_page q (mem t) (mem t'))"
  using pmm_source.take_pages_fresh [OF assms(1,2)] pool.take_pages_fresh [OF assms(3,4)] by blast

theorem allocators_take_distinct_witness:
  "distinct (fst (pmm_source.take_pages 3 (snd (pmm_init (pmm_power_on (\<lambda>_. 0)))))) \<and>
   distinct (fst (pool.take_pages 3 (paging_init (paging_power_on (\<lambda>_. 0)))))"
proof -
  have p: "\<not> pmm_initialized (pmm_power_on (\<lambda>_. 0))" "length (pmm_regions (pmm_power_on (\<lambda>_. 0))) = 16"
    by (simp_all add: pmm_power_on_def)
  define s where "s = snd (pmm_init (pmm_power_on (\<lambda>_. 0)))"
  have e: "pmm_init (pmm_power_on (\<lambda>_. 0)) = (fst (pmm_init (pmm_power_on (\<lambda>_. 0))), s)" by (simp add: s_def)
  have a: "pmm_owns s {} (3 + 0)" using pmm_init_state(2,3) [OF p e] by (simp add: pmm_owns_def)
  have b: "pool_owns (paging_init (paging_power_on (\<lambda>_. 0))) (pool_owned 0x1020000 1019) (3 + 0)"
    using booted_pool [of "\<lambda>_. 0"] unfolding pool_owns_def
    by (intro exI [of _ "pool_list 0x1020000 1019"]) (simp add: pool_list_def)
  obtain ps s' qs t' where t: "pmm_source.take_pages 3 s = (ps, s')"
      "pool.take_pages 3 (paging_init (paging_power_on (\<lambda>_. 0))) = (qs, t')" by fastforce
  then show ?thesis using allocators_take_distinct [OF a t(1) b t(2)] by (simp add: s_def)
qed

end
