(* ===== verification/Console_Props.thy ===== *)
theory Console_Props
  imports Console_Format
begin

text \<open>
  The properties of the text console of \<^verbatim>\<open>src/src/lib/kprintf.c\<close>: formatted output is safe
  and prints what its specification renders on the terminal of 25 lines, numbers can be read
  back, and the hardware cursor follows every operation.
\<close>

definition blank_screen :: console where
  "blank_screen = \<lparr>video = (\<lambda>_. 0), kprint_x = 79, kprint_y = 24, crtc = []\<rparr>"

lemma blank_screen_ok: "cursor_ok blank_screen" "screen_inv (\<lambda>_. 0) blank_screen"
  by (simp_all add: blank_screen_def cursor_ok_def screen_inv_def)

section \<open>Formatted output\<close>

text \<open>A \<open>kprintf\<close> whose format and arguments pass the check (every conversion complete, at
  most 32 columns asked for, an argument of the right kind for each) is performed without
  undefined behaviour, leaves the cursor on the screen, and writes no byte outside the 4000
  bytes of the text buffer.\<close>
theorem kprintf_safe:
  assumes "call_ok format args" "screen_inv vid c"
  shows "\<exists>c'. kprintf format args c = Some c' \<and> cursor_ok c' \<and>
    (\<forall>pos. video c' pos \<noteq> vid pos \<longrightarrow> 0 \<le> pos \<and> pos < 4000)"
proof -
  obtain str where str: "render format args = Some str" using call_ok_render [OF assms(1)] by blast
  then have "kprintf format args c = Some (fold kputchar str c)" by (simp add: kprintf_render)
  moreover from this have "screen_inv vid (fold kputchar str c)" by (rule kprintf_screen_inv [OF assms(2)])
  ultimately show ?thesis unfolding screen_inv_def by (meson not_less)
qed

theorem kprintf_safe_witness:
  "\<exists>c'. kprintf ''0x%08x %s%%'' [KInt 48879, KStr None] blank_screen = Some c' \<and> cursor_ok c'"
proof -
  have "call_ok ''0x%08x %s%%'' [KInt 48879, KStr None]" by code_simp
  from kprintf_safe [OF this blank_screen_ok(2)] show ?thesis by blast
qed



section \<open>Numbers\<close>

lemma render_nat_digits:
  assumes "2 \<le> b"
  shows "\<exists>ds. render_nat b up n = map (digit_char up) ds \<and> digits_val b (rev ds) = n \<and>
    set ds \<subseteq> {..<b} \<and> (ds = [0] \<or> ds \<noteq> [] \<and> hd ds \<noteq> 0)"
proof (cases "n = 0")
  case True
  have "digit_char up 0 = CHR ''0''" by (simp add: digit_char_def digit_set_def)
  with True assms have "render_nat b up n = map (digit_char up) [0]" by (simp add: render_nat_def)
  then show ?thesis using True assms by (intro exI [of _ "[0]"]) simp
next
  case False
  then have "nat_digits b n \<noteq> []" using assms by (simp add: nat_digits_step)
  then show ?thesis using False assms nat_digits_last [OF assms] nat_digits_less [OF assms]
    by (intro exI [of _ "rev (nat_digits b n)"])
       (auto simp: render_nat_def rev_map digits_val_nat_digits hd_rev)
qed

text \<open>C25: what \<open>kprint_unsigned\<close> prints reads back as the number: for every base from 2 to 16 the
  characters are the digits of the number, most significant first, without a leading zero, and
  the buffer of 32 characters always suffices.\<close>
theorem kprint_unsigned_roundtrip:
  assumes "2 \<le> unat base" "unat base \<le> 16"
  shows "\<exists>ds. kprint_unsigned num base up c = Some (fold kputchar (map (\<lambda>d. digit_set up ! d) ds) c) \<and>
    digits_val (unat base) (rev ds) = unat num \<and> set ds \<subseteq> {..<16} \<and> length ds \<le> 32 \<and>
    (ds = [0] \<or> ds \<noteq> [] \<and> hd ds \<noteq> 0)"
proof -
  obtain ds where ds: "render_nat (unat base) up (unat num) = map (digit_char up) ds"
    "digits_val (unat base) (rev ds) = unat num" "set ds \<subseteq> {..<unat base}" "ds = [0] \<or> ds \<noteq> [] \<and> hd ds \<noteq> 0"
    using render_nat_digits [OF assms(1)] by metis
  have "length ds = max 1 (length (nat_digits (unat base) (unat num)))"
    using ds(1) length_render_nat [OF assms(1)] by (metis length_map)
  then have "length ds \<le> 32" using length_nat_digits32 [OF assms(1), of num] by simp
  moreover have "set ds \<subseteq> {..<16}" using ds(3) assms(2) by auto
  moreover have "kprint_unsigned num base up c = Some (fold kputchar (map (\<lambda>d. digit_set up ! d) ds) c)"
    using assms(1) by (simp add: kprint_unsigned_eq ds(1) digit_char_def [abs_def])
  ultimately show ?thesis using ds(2,4) by blast
qed

theorem kprint_unsigned_roundtrip_witness:
  "\<exists>ds. kprint_unsigned 48879 16 True blank_screen = Some (fold kputchar (map (\<lambda>d. digit_set True ! d) ds) blank_screen) \<and>
    digits_val 16 (rev ds) = 48879"
proof -
  have b: "unat (16 :: u32) = 16" "unat (48879 :: u32) = 48879" by simp_all
  have "\<exists>ds. kprint_unsigned 48879 16 True blank_screen = Some (fold kputchar (map (\<lambda>d. digit_set True ! d) ds) blank_screen) \<and>
    digits_val (unat (16 :: u32)) (rev ds) = unat (48879 :: u32)"
    using kprint_unsigned_roundtrip [of 16 48879 True blank_screen] by auto
  then show ?thesis unfolding b .
qed


section \<open>The cursor\<close>

text \<open>C34: the hardware cursor follows the software cursor: after any call of the console routines
  the last bytes sent to the CRT controller are the position of the cursor, \<open>kset_cursor_position\<close>
  moves to a cell on the screen and ignores any other, and clearing leaves 2000 blanks and the
  cursor at the top.\<close>
theorem console_cursor_follows:
  assumes "hw_cursor_synced c" "cursor_ok c"
  shows "hw_cursor_synced (kset_cursor_position x y c) \<and> cursor_ok (kset_cursor_position x y c) \<and>
    term_of (kclear_screen c) = (replicate 2000 0x20, 0) \<and> hw_cursor_synced (kclear_screen c) \<and>
    pred_option hw_cursor_synced (console_run ks c)"
proof -
  have clear: "hw_cursor_synced (kclear_screen d)" for d
    unfolding kclear_screen_def by (rule update_hardware_cursor_synced)
  have fold: "hw_cursor_synced (fold kputchar str d)" if "hw_cursor_synced d" for str d
    using that by (induction str arbitrary: d) (simp_all add: kputchar_synced)
  have call: "pred_option hw_cursor_synced (console_call k d)" if "hw_cursor_synced d" for k d
    using that by (cases k)
      (auto simp: clear fold kputchar_synced kprintf_render option.pred_map option.pred_set)
  have run: "pred_option hw_cursor_synced (console_run ks d)" if "hw_cursor_synced d" for d
    using that
  proof (induction ks arbitrary: d)
    case Nil
    then show ?case by simp
  next
    case (Cons k ks)
    then show ?case using call [OF Cons.prems, of k] by (auto split: option.split)
  qed
  have set: "hw_cursor_synced (kset_cursor_position x y c)"
    using assms(1) by (simp add: kset_cursor_position_def update_hardware_cursor_synced)
  have ok: "cursor_ok (kset_cursor_position x y c)"
    using assms(2) by (simp add: kset_cursor_position_def cursor_ok_def)
  have "term_of (kclear_screen c) = (replicate 2000 0x20, 0)"
    by (simp add: term_of_cells cells_kclear_screen kclear_screen_cursor)
  then show ?thesis using clear [of c] run [OF assms(1)] set ok by blast
qed

theorem console_cursor_follows_witness:
  "hw_cursor_synced (kset_cursor_position 79 24 (kclear_screen blank_screen))"
proof -
  have "hw_cursor_synced (kclear_screen blank_screen)" "cursor_ok (kclear_screen blank_screen)"
    by (simp_all add: kclear_screen_def update_hardware_cursor_synced cursor_ok_def)
  from console_cursor_follows [OF this] show ?thesis by blast
qed

end
