(* ===== verification/Boot_Memory.thy ===== *)
theory Boot_Memory
  imports Paging_Props
begin

text \<open>
  The two page allocators of the kernel on one memory, in the order \<open>kernel_main\<close> starts them:
  first the bitmap allocator of \<^verbatim>\<open>pmm.c\<close>, then the free list of \<^verbatim>\<open>paging.c\<close>. Both take
  their pages from \<^verbatim>\<open>0x1020000\<close> on.
\<close>

lemma fresh_paging_more: "pmm.more s' = pmm.more s \<Longrightarrow> fresh_paging s' = fresh_paging s"
  by (cases s, cases s') (simp add: fresh_paging_def)

lemma power_on_pmm: "\<not> pmm_initialized (paging_power_on m)" "length (pmm_regions (paging_power_on m)) = 16"
  "io (paging_power_on m) = []" "kout (paging_power_on m) = []"
  by (simp_all add: paging_power_on_def pmm_power_on_def pmm.extend_def)

lemma pmm_then_fresh:
  assumes "\<not> pmm_initialized s" "length (pmm_regions s) = 16" "fresh_paging s"
  shows "fresh_paging (snd (pmm_init s))"
  using pmm_init_state(8) [OF assms(1,2) prod.collapse [symmetric]] fresh_paging_more assms(3) by blast

section \<open>The bitmap after \<open>paging_init\<close>\<close>

lemma bitmap_page_zeroed:
  assumes fr: "fresh_paging s" and x: "page_no x = 0x1020"
  shows "mem (paging_init s) x = 0"
proof -
  note F = fresh_pool [OF fr]
  define s0 where "s0 = printk ''Initializing physical memory free list...\<newline>'' []
    (printk ''Initializing PAE paging...\<newline>'' [] s)"
  have "page_no x \<noteq> page_no (pool_addr 0x1020000 j)" if "1019 \<le> j" "j < 1024" for j
  proof -
    have "unat (page_no (pool_addr 0x1020000 j)) = 0x1020 + j" using that by (simp add: unat_page_no unat_pool_addr)
    then show ?thesis using x that by auto
  qed
  then have "off_tables 0x1020000 x" by (simp add: off_tables_def)
  then have "mem (paging_init s) x = mem (init_free_list (printk ''Initializing PAE paging...\<newline>'' [] s)) x"
    using paging_init_state(8) [OF F(1,2,3)] by (simp add: F(4))
  also have "\<dots> = mem (for_lt 1024 (init_free_page 0x1020000) s0) x"
    by (simp add: init_free_list_def Let_def s0_def F(4))
  also have "\<dots> = 0"
  proof (rule init_loop_first)
    show "page_no x = page_no 0x1020000" using x by (simp add: page_no_def)
    show "free_list_head s0 = 0" using fr by (simp add: s0_def fresh_paging_def)
  qed simp_all
  finally show ?thesis .
qed

lemma zero_bitmap_free:
  assumes l: "pmm_layout s" and z: "\<And>x. page_no x = 0x1020 \<Longrightarrow> mem s x = 0"
  shows "pmm_free_set s = {..<4096}" "unat p < 4096 \<Longrightarrow> \<not> pmm_test_bit p s"
proof -
  have e: "bitmap_entry s i = 0" if "unat i < 1024" for i
  proof -
    have "aligned 2 (0x1020000 + 4 * i)" by (rule elem4_aligned) simp
    moreover have "page_no (0x1020000 + 4 * i) = 0x1020"
      using elem4_page [OF page_aligned_managed that] by (simp add: page_no_def)
    ultimately have "load32 (mem s) (0x1020000 + 4 * i) = 0"
      using w32.span_page [of "0x1020000 + 4 * i"] by (intro load32_zero z) simp
    then show ?thesis using l by (simp add: bitmap_entry_def pmm_layout_def)
  qed
  show t: "\<not> pmm_test_bit p s" if "unat p < 4096" for p
    using e [of "p div 32"] that by (simp add: test_bit_eq [OF l])
  then show "pmm_free_set s = {..<4096}" by (auto simp: free_bits_def unat_of_nat_small)
qed

lemma pmm_layout_part: "pmm_part s' = pmm_part s \<Longrightarrow> pmm_layout s' = pmm_layout s"
  by (simp add: pmm_part_def pmm_layout_def)

lemma both_allocators:
  fixes s :: "'a paging_scheme"
  assumes inv: "pmm_inv s" and fr: "fresh_paging s"
  defines "t \<equiv> paging_init s"
  shows "pmm_layout t" "pmm_free_set t = {..<4096}" "unat p < 4096 \<Longrightarrow> \<not> pmm_test_bit p t" "pmm_part t = pmm_part s"
    "pdpt t = managed_addr 1023" "pool_inv t (pool_list 0x1020000 1019) (pool_owned 0x1020000 1019)"
proof -
  note F = fresh_pool [OF fr]
  note I = paging_init_state [OF F(1,2,3), folded t_def, unfolded F(4)]
  show part: "pmm_part t = pmm_part s" by (rule I(6))
  then show l: "pmm_layout t" using inv pmm_layout_part by (auto simp: pmm_inv_def)
  show "pmm_free_set t = {..<4096}" "unat p < 4096 \<Longrightarrow> \<not> pmm_test_bit p t"
    by (intro zero_bitmap_free [OF l]; simp add: t_def bitmap_page_zeroed [OF fr])+
  show "pdpt t = managed_addr 1023" "pool_inv t (pool_list 0x1020000 1019) (pool_owned 0x1020000 1019)"
    using I(1) by (simp_all add: init_loop_inv_def pool_addr_def managed_addr_def)
qed

text \<open>C13: started in the order of \<open>kernel_main\<close>, the two allocators own the same pages, whatever
  memory held at power on: \<open>paging_init\<close> zeroes the bitmap of \<open>pmm_init\<close>, so the bitmap
  allocator loses its invariant and takes every managed page for free, the page directory
  pointer table the processor is about to use included; its next allocation hands out the page
  of the bitmap itself, which is at that time also on the free list of the paging code.\<close>
theorem paging_init_clobbers_bitmap:
  "let s = snd (pmm_init (paging_power_on m)); t = paging_init s in
     pmm_inv s \<and> pmm_free_set s = {1..<4096} \<and>
     pmm_free_set t = {..<4096} \<and> \<not> pmm_inv t \<and> \<not> pmm_is_page_allocated (pdpt t) t \<and>
     fst (pmm_alloc_page t) = pmm_bitmap t \<and>
     (\<exists>ps. heap_list (mem t) (free_list_head t) ps \<and> fst (pmm_alloc_page t) \<in> set ps)"
proof -
  define s where "s = snd (pmm_init (paging_power_on m))"
  define t where "t = paging_init s"
  note P = pmm_init_state [OF power_on_pmm(1,2) [of m] prod.collapse [symmetric], folded s_def]
  have fr: "fresh_paging s" unfolding s_def
    by (rule pmm_then_fresh [OF power_on_pmm(1,2) fresh_power_on(1)])
  note B = both_allocators [OF P(2) fr, folded t_def]
  have f: "pmm_bitmap t = 0x1020000" "pmm_total_pages t = 4096" "pmm_initialized t" "pmm_last_allocated t = 0"
    "pmm_free_page_count t = pmm_free_page_count s"
    using B(1,4) P(2,6) by (simp_all add: pmm_layout_def pmm_part_def pmm_inv_def)
  have "unat (pmm_free_page_count s) = 4095" using P(2,3) by (simp add: pmm_inv_def)
  then have cnt: "\<not> pmm_free_page_count t < 1" using f(5) by (simp add: word_less_nat_alt)
  have "pmm_find_loop t 1 0 4096 0 0 0 = 0"
    using B(3) [of 0] f(2) pmm_find_loop.simps(2) [of t 1 0 4095 0 0 0] by simp
  then have "pmm_find_free_pages 1 t = 0" using f by (simp add: pmm_find_free_pages_def)
  then have a: "fst (pmm_alloc_page t) = 0x1020000"
    using f cnt by (simp add: pmm_alloc_page_def pmm_alloc_pages_def Let_def)
  have "\<not> pmm_test_bit 1023 t" using B(3) [of 1023] by simp
  then have pd: "\<not> pmm_is_page_allocated (pdpt t) t"
    using f B(5) by (simp add: pmm_is_page_allocated_def managed_addr_def)
  have "pool_addr 0x1020000 0 \<in> set (pool_list 0x1020000 1019)" by (simp add: pool_list_def)
  then have m: "0x1020000 \<in> set (pool_list 0x1020000 1019)" by (simp add: pool_addr_def)
  have "heap_list (mem t) (free_list_head t) (pool_list 0x1020000 1019)" using B(6) by (simp add: pool_inv_def)
  then have "\<exists>ps. heap_list (mem t) (free_list_head t) ps \<and> fst (pmm_alloc_page t) \<in> set ps"
    using m a by auto
  moreover have "\<not> pmm_inv t" using B(2) by (simp add: pmm_inv_def)
  ultimately show ?thesis
    unfolding Let_def s_def [symmetric] t_def [symmetric] using P(2,3) B(2) pd a f(1) by simp
qed

end
