(* ===== verification/Display.thy ===== *)
theory Display
  imports Paging_Walk
begin

text \<open>
  The display driver of \<^verbatim>\<open>src/src/drivers/vga.c\<close>: the switch between text mode and the VESA
  graphics mode, and the clearing of the graphics screen through a frame buffer that is mapped
  for the purpose. The routines of \<^verbatim>\<open>vesa_bios.asm\<close> are fields of the \<open>device\<close>.
\<close>

section \<open>The code\<close>

abbreviation (input) PAGE_CACHE_DISABLE :: u32 where "PAGE_CACHE_DISABLE \<equiv> 0x10"

definition store16 :: "u32 \<Rightarrow> u16 \<Rightarrow> memory \<Rightarrow> memory" where
  "store16 a v m = m(a := ucast v, a + 1 := ucast (drop_bit 8 v))"

record display = paging +
  current_mode :: int

definition vga_init :: "'a display_scheme \<Rightarrow> int \<times> 'a display_scheme" where
  "vga_init s =
     (let s = printk ''VGA: Initializing graphics driver...\<newline>'' [] s;
          s = s\<lparr>current_mode := 0\<rparr>;
          s = printk ''VGA: Driver initialized in text mode\<newline>'' [] s
      in (0, s))"

text \<open>
  The loop that maps the frame buffer: the second argument counts the iterations left, the
  result says whether all succeeded.
\<close>

fun map_framebuffer :: "u32 \<Rightarrow> nat \<Rightarrow> u32 \<Rightarrow> 'a paging_scheme \<Rightarrow> bool \<times> 'a paging_scheme" where
  "map_framebuffer lfb_addr 0 i s = (True, s)"
| "map_framebuffer lfb_addr (Suc k) i s =
     (let virtual_addr = lfb_addr + i * PAGE_SIZE;
          physical_addr = ucast (lfb_addr + i * PAGE_SIZE);
          (result, s) = map_page virtual_addr physical_addr (PAGE_PRESENT OR PAGE_WRITABLE OR PAGE_CACHE_DISABLE) s
      in if result \<noteq> 0 then (False, s) else map_framebuffer lfb_addr k (i + 1) s)"

definition vga_clear_screen_now :: "device \<Rightarrow> 'a paging_scheme \<Rightarrow> 'a paging_scheme" where
  "vga_clear_screen_now dev s =
     (let lfb_addr = lfb_address dev (io s);
          width = mode_width dev (io s);
          height = mode_height dev (io s);
          bpp = mode_bpp dev (io s);
          lfb_addr = (if lfb_addr = 0 then 0xE0000000 else lfb_addr);
          (width, height) = (if width = 0 \<or> height = 0 then (1024, 768) else (width, height));
          bytes_per_pixel = (bpp + 7) div 8;
          fb_size = width * height * bytes_per_pixel;
          pages_needed = (fb_size + PAGE_SIZE - 1) div PAGE_SIZE;
          (mapped, s) = map_framebuffer lfb_addr (unat pages_needed) 0 s
      in if \<not> mapped then s
         else if bpp = 16 then
           s\<lparr>mem := for_lt (width * height) (\<lambda>i. store16 (lfb_addr + 2 * i) 0xFFFF) (mem s)\<rparr>
         else if bpp = 24 \<or> bpp = 32 then
           s\<lparr>mem := for_lt (width * height) (\<lambda>i. store32 (lfb_addr + 4 * i) 0x00FFFFFF) (mem s)\<rparr>
         else s)"

definition vga_clear_screen :: "device \<Rightarrow> 'a display_scheme \<Rightarrow> 'a display_scheme" where
  "vga_clear_screen dev s =
     (if current_mode s \<noteq> 1 then printk ''VGA: Not in VESA graphics mode, cannot clear\<newline>'' [] s
      else vga_clear_screen_now dev s)"

definition vga_set_vesa_mode_1024x768 :: "device \<Rightarrow> 'a display_scheme \<Rightarrow> int \<times> 'a display_scheme" where
  "vga_set_vesa_mode_1024x768 dev s =
     (let s = printk ''VGA: Attempting to set VESA 1024x768 mode...\<newline>'' [] s;
          s = hw VesaSetMode s;
          result = vesa_set_mode dev (io s)
      in if result = 0 then
           (let lfb_addr = lfb_address dev (io s);
                width = mode_width dev (io s);
                height = mode_height dev (io s);
                bpp = mode_bpp dev (io s);
                s = printk ''VGA: VESA mode set successfully!\<newline>'' [] s;
                s = printk ''VGA: Resolution: %dx%d, %d bpp, LFB at 0x%08X\<newline>''
                      [KInt width, KInt height, KInt bpp, KInt lfb_addr] s;
                s = s\<lparr>current_mode := 1\<rparr>;
                s = vga_clear_screen dev s
            in (0, s))
         else (- 1, printk ''VGA: Failed to set VESA mode (error %d)\<newline>'' [KInt result] s))"

definition vga_get_mode :: "'a display_scheme \<Rightarrow> int" where
  "vga_get_mode s = current_mode s"

definition vga_get_lfb_address :: "device \<Rightarrow> 'a display_scheme \<Rightarrow> u32" where
  "vga_get_lfb_address dev s = lfb_address dev (io s)"

definition vga_set_text_mode_80x25 :: "device \<Rightarrow> 'a display_scheme \<Rightarrow> 'a display_scheme" where
  "vga_set_text_mode_80x25 dev s =
     (let s = hw VesaSetText s;
          result = vesa_set_text dev (io s)
      in if result = 0 then
           printk ''VGA: Switched back to 80x25 text mode\<newline>'' [] (s\<lparr>current_mode := 0\<rparr>)
         else printk ''VGA: Failed to switch to text mode\<newline>'' [] s)"

end
