(* ===== verification/Keyboard.thy ===== *)
theory Keyboard
  imports Display
begin

text \<open>
  The keyboard driver of \<^verbatim>\<open>src/src/drivers/keyboard.c\<close>: the two tables from scan codes of set 1
  to characters, and the handler the keyboard interrupt calls with each scan code.
\<close>

section \<open>The code\<close>

definition scancode_to_ascii :: string where
  "scancode_to_ascii =
     [CHR 0x00, CHR 0x1B] @ ''1234567890-='' @ [CHR 0x08] @
     [CHR 0x09] @ ''qwertyuiop[]'' @ [CHR 0x0A] @
     [CHR 0x00] @ ''asdfghjkl;'' @ [CHR 0x27, CHR 0x60, CHR 0x00] @
     [CHR 0x5C] @ ''zxcvbnm,./'' @ [CHR 0x00, CHR ''*''] @
     [CHR 0x00, CHR '' ''] @ replicate 14 (CHR 0x00) @
     replicate 16 (CHR 0x00) @
     replicate 16 (CHR 0x00)"

definition scancode_to_ascii_shift :: string where
  "scancode_to_ascii_shift =
     [CHR 0x00, CHR 0x1B] @ ''!@#$%^&*()_+'' @ [CHR 0x08] @
     [CHR 0x09] @ ''QWERTYUIOP{}'' @ [CHR 0x0A] @
     [CHR 0x00] @ ''ASDFGHJKL:'' @ [CHR 0x22, CHR ''~'', CHR 0x00] @
     [CHR ''|''] @ ''ZXCVBNM<>?'' @ [CHR 0x00, CHR ''*''] @
     [CHR 0x00, CHR '' ''] @ replicate 14 (CHR 0x00) @
     replicate 16 (CHR 0x00) @
     replicate 16 (CHR 0x00)"

record keyboard = display +
  shift_pressed :: bool
  caps_lock :: bool
  alt_pressed :: bool
  vesa_mode_active :: bool

definition keyboard_init :: "'a keyboard_scheme \<Rightarrow> 'a keyboard_scheme" where
  "keyboard_init s = s\<lparr>shift_pressed := False, caps_lock := False, alt_pressed := False, vesa_mode_active := False\<rparr>"

text \<open>Alt and G: the switch between the text mode and the VESA mode.\<close>

definition toggle_mode :: "device \<Rightarrow> 'a keyboard_scheme \<Rightarrow> 'a keyboard_scheme" where
  "toggle_mode dev s =
     (if vesa_mode_active s then
        (let s = vga_set_text_mode_80x25 dev s;
             s = s\<lparr>vesa_mode_active := False\<rparr>
         in printk ''\<newline>[DEBUG] Switched back to text mode via Alt+G\<newline>'' [] s)
      else
        (let s = printk ''\<newline>Switching to VESA mode via Alt+G...\<newline>'' [] s;
             (r, s) = vga_set_vesa_mode_1024x768 dev s
         in if r = 0 then s\<lparr>vesa_mode_active := True\<rparr>
            else printk ''VESA mode failed.\<newline>'' [] s))"

text \<open>The character a key stands for: \<^verbatim>\<open>ascii - 'a' + 'A'\<close> under caps lock for a small letter.\<close>

definition key_ascii :: "u8 \<Rightarrow> 'a keyboard_scheme \<Rightarrow> char" where
  "key_ascii scancode s =
     (if shift_pressed s then scancode_to_ascii_shift ! unat scancode
      else
        (let ascii = scancode_to_ascii ! unat scancode
         in if caps_lock s \<and> of_char (CHR ''a'') \<le> (of_char ascii :: nat) \<and> (of_char ascii :: nat) \<le> of_char (CHR ''z'')
            then char_of (of_char ascii - of_char (CHR ''a'') + of_char (CHR ''A'') :: nat) else ascii))"

definition put_key :: "char \<Rightarrow> 'a machine_scheme \<Rightarrow> 'a machine_scheme" where
  "put_key ascii s =
     (if ascii \<noteq> CHR 0x00 then
        (if ascii = CHR 0x0A then printk ''\<newline>'' [] s
         else if ascii = CHR 0x08 then emit (KPutchar (CHR 0x08)) s
         else if ascii = CHR 0x09 then printk ''    '' [] s
         else emit (KPutchar ascii) s)
      else s)"

definition keyboard_handler :: "device \<Rightarrow> u8 \<Rightarrow> 'a keyboard_scheme \<Rightarrow> 'a keyboard_scheme" where
  "keyboard_handler dev scancode s =
     (if scancode AND 0x80 \<noteq> 0 then
        (let scancode = scancode AND 0x7F
         in if scancode = 0x2A \<or> scancode = 0x36 then s\<lparr>shift_pressed := False\<rparr>
            else if scancode = 0x38 then s\<lparr>alt_pressed := False\<rparr> else s)
      else if scancode = 0x2A \<or> scancode = 0x36 then s\<lparr>shift_pressed := True\<rparr>
      else if scancode = 0x38 then s\<lparr>alt_pressed := True\<rparr>
      else if scancode = 0x01 then (if \<not> alt_pressed s then emit (KPutchar (CHR 0x1B)) s else s)
      else if scancode = 0x3A then s\<lparr>caps_lock := \<not> caps_lock s\<rparr>
      else if unat scancode < length scancode_to_ascii then
        (if alt_pressed s \<and> scancode = 0x22 then toggle_mode dev s
         else if \<not> alt_pressed s then put_key (key_ascii scancode s) s
         else s)
      else s)"

end
