(* ===== verification/Interrupts.thy ===== *)
theory Interrupts
  imports Keyboard
begin

text \<open>
  Interrupts and exceptions, \<^verbatim>\<open>src/src/interrupt/idt.c\<close>: the interrupt descriptor table, the
  two interrupt controllers, the handler of hardware interrupts and the handler of exceptions,
  which prints a report and halts. The entry stubs of \<^verbatim>\<open>isr.asm\<close> and the place of the table
  are addresses the linker chooses: they are fields of an \<open>image\<close>.
\<close>

section \<open>The descriptor table\<close>

record idt_entry =
  offset_low :: u16
  selector :: u16
  zero :: u8
  type_attr :: u8
  offset_high :: u16

abbreviation (input) IDT_ENTRIES :: nat where "IDT_ENTRIES \<equiv> 256"

record interrupts = keyboard +
  idt :: "idt_entry list"

record image =
  isr_stub :: "nat \<Rightarrow> u32"
  irq_stub :: "nat \<Rightarrow> u32"
  idt_address :: u32

record interrupt_frame =
  edi :: u32
  esi :: u32
  ebp :: u32
  esp_dummy :: u32
  ebx :: u32
  edx :: u32
  ecx :: u32
  eax :: u32
  interrupt_number :: u32
  error_code :: u32
  eip :: u32
  cs :: u32
  eflags :: u32
  esp :: u32
  ss :: u32

definition idt_set_gate :: "nat \<Rightarrow> u32 \<Rightarrow> 'a interrupts_scheme \<Rightarrow> 'a interrupts_scheme" where
  "idt_set_gate n handler s =
     s\<lparr>idt := (idt s)[n :=
        \<lparr>offset_low = ucast (handler AND 0xFFFF), selector = 0x08, zero = 0, type_attr = 0x8E,
         offset_high = ucast (drop_bit 16 handler AND 0xFFFF)\<rparr>]\<rparr>"

definition lidt :: "u32 \<Rightarrow> u16 \<Rightarrow> 'a machine_scheme \<Rightarrow> 'a machine_scheme" where
  "lidt base sz s = hw (Lidt base sz) s"

text \<open>\<^verbatim>\<open>sizeof(idt)\<close>: 256 packed entries of 8 bytes.\<close>

definition idt_install :: "image \<Rightarrow> 'a interrupts_scheme \<Rightarrow> 'a interrupts_scheme" where
  "idt_install img s =
     lidt (idt_address img) (of_nat (IDT_ENTRIES * 8) - 1)
       (fold (\<lambda>n. idt_set_gate n (isr_stub img n)) [0..<32] s)"

section \<open>The interrupt controllers\<close>

abbreviation (input) PIC1_COMMAND :: u16 where "PIC1_COMMAND \<equiv> 0x20"
abbreviation (input) PIC1_DATA :: u16 where "PIC1_DATA \<equiv> 0x21"
abbreviation (input) PIC2_COMMAND :: u16 where "PIC2_COMMAND \<equiv> 0xA0"
abbreviation (input) PIC2_DATA :: u16 where "PIC2_DATA \<equiv> 0xA1"
abbreviation (input) PIC_EOI :: u8 where "PIC_EOI \<equiv> 0x20"

definition pic_send_eoi :: "u8 \<Rightarrow> 'a machine_scheme \<Rightarrow> 'a machine_scheme" where
  "pic_send_eoi irq s =
     (let s = (if irq \<ge> 8 then outb PIC2_COMMAND PIC_EOI s else s)
      in outb PIC1_COMMAND PIC_EOI s)"

definition pic_remap :: "device \<Rightarrow> 'a machine_scheme \<Rightarrow> 'a machine_scheme" where
  "pic_remap dev s =
     (let (mask1, s) = inb dev PIC1_DATA s;
          (mask2, s) = inb dev PIC2_DATA s;
          s = outb PIC1_COMMAND 0x11 s;
          s = outb PIC2_COMMAND 0x11 s;
          s = outb PIC1_DATA 32 s;
          s = outb PIC2_DATA 40 s;
          s = outb PIC1_DATA 4 s;
          s = outb PIC2_DATA 2 s;
          s = outb PIC1_DATA 0x01 s;
          s = outb PIC2_DATA 0x01 s;
          s = outb PIC1_DATA mask1 s
      in outb PIC2_DATA mask2 s)"

text \<open>
  \<^verbatim>\<open>1 << irq_line\<close> is an \<^verbatim>\<open>int\<close> cut to a byte. For lines above 39 the shift is undefined in C;
  the only callers ask for lines 0 and 1.
\<close>

definition irq_port :: "u8 \<Rightarrow> u16 \<times> u8" where
  "irq_port irq_line = (if irq_line < 8 then (PIC1_DATA, irq_line) else (PIC2_DATA, irq_line - 8))"

definition irq_set_mask :: "device \<Rightarrow> u8 \<Rightarrow> 'a machine_scheme \<Rightarrow> 'a machine_scheme" where
  "irq_set_mask dev irq_line s =
     (let (port, irq_line) = irq_port irq_line;
          (v, s) = inb dev port s;
          value = v OR ucast (push_bit (unat irq_line) (1 :: u32))
      in outb port value s)"

definition irq_clear_mask :: "device \<Rightarrow> u8 \<Rightarrow> 'a machine_scheme \<Rightarrow> 'a machine_scheme" where
  "irq_clear_mask dev irq_line s =
     (let (port, irq_line) = irq_port irq_line;
          (v, s) = inb dev port s;
          value = v AND ucast (NOT (push_bit (unat irq_line) (1 :: u32)))
      in outb port value s)"

definition irq_install :: "device \<Rightarrow> image \<Rightarrow> 'a interrupts_scheme \<Rightarrow> 'a interrupts_scheme" where
  "irq_install dev img s =
     (let s = pic_remap dev s;
          s = fold (\<lambda>n. idt_set_gate (32 + n) (irq_stub img n)) [0..<16] s;
          s = irq_clear_mask dev 0 s
      in irq_clear_mask dev 1 s)"

section \<open>Printing numbers\<close>

definition hex_chars :: string where
  "hex_chars = ''0123456789ABCDEF''"

text \<open>The loop over the eight positions from the last to the first.\<close>

definition hex_buffer :: "u32 \<Rightarrow> string" where
  "hex_buffer v =
     fst (fold (\<lambda>i (buffer, v). (buffer[i := hex_chars ! unat (v AND 0xF)], drop_bit 4 v))
       (rev [0..<8]) (''00000000'', v))"

definition print_hex :: "u32 \<Rightarrow> 'a machine_scheme \<Rightarrow> 'a machine_scheme" where
  "print_hex v s =
     (let s = printk ''0x'' [] s
      in printk (hex_buffer v) [] s)"

text \<open>
  The decimal digits of a number in two buffers of the given size, \<^verbatim>\<open>temp\<close> from the last digit
  on and its reverse with a terminator; \<open>None\<close> when one of them is overrun.
\<close>

fun dec_loop :: "nat \<Rightarrow> u32 \<Rightarrow> string \<Rightarrow> string option" where
  "dec_loop room num temp =
     (if num > 0 then
        (case room of 0 \<Rightarrow> None
         | Suc room' \<Rightarrow> dec_loop room' (num div 10) (temp @ [char_of (48 + unat (num mod 10))]))
      else Some temp)"

definition dec_string :: "nat \<Rightarrow> u32 \<Rightarrow> string option" where
  "dec_string sz num =
     (if num = 0 then Some ''0''
      else (case dec_loop sz num [] of
              None \<Rightarrow> None
            | Some temp \<Rightarrow> if length temp < sz then Some (rev temp) else None))"

section \<open>Exceptions\<close>

definition show_register_dump :: "interrupt_frame \<Rightarrow> 'a machine_scheme \<Rightarrow> 'a machine_scheme" where
  "show_register_dump frame s =
     (let s = printk ''Register Dump (at time of exception):\<newline>'' [] s;
          s = print_hex (eax frame) (printk ''EAX='' [] s);
          s = print_hex (ebx frame) (printk '' EBX='' [] s);
          s = print_hex (ecx frame) (printk '' ECX='' [] s);
          s = print_hex (edx frame) (printk '' EDX='' [] s);
          s = printk ''\<newline>'' [] s;
          s = print_hex (esp frame) (printk ''ESP='' [] s);
          s = print_hex (ebp frame) (printk '' EBP='' [] s);
          s = print_hex (esi frame) (printk '' ESI='' [] s);
          s = print_hex (edi frame) (printk '' EDI='' [] s);
          s = printk ''\<newline>'' [] s;
          s = print_hex (eip frame) (printk ''EIP='' [] s);
          s = print_hex (cs frame) (printk '' CS='' [] s);
          s = print_hex (eflags frame) (printk '' EFLAGS='' [] s);
          s = printk ''\<newline>'' [] s;
          s = print_hex (ss frame) (printk ''SS='' [] s)
      in printk ''\<newline>\<newline>'' [] s)"

definition panic_banner :: "'a machine_scheme \<Rightarrow> 'a machine_scheme" where
  "panic_banner s =
     (let s = printk ''\<newline>'' [] s;
          s = printk ''=== KERNEL PANIC ===\<newline>'' [] s;
          s = printk ''The system has encountered a fatal error and cannot continue.\<newline>'' [] s;
          s = printk ''This exception occurred in kernel mode.\<newline>\<newline>'' [] s;
          s = printk ''System Information:\<newline>'' [] s;
          s = printk ''- Kernel: LikeOS-NG\<newline>'' [] s;
          s = printk ''- Architecture: x86 (32-bit)\<newline>'' [] s
      in printk ''- Exception Number: '' [] s)"

definition kernel_panic :: "interrupt_frame \<Rightarrow> 'a machine_scheme \<Rightarrow> 'a machine_scheme option" where
  "kernel_panic frame s =
     (case dec_string 12 (interrupt_number frame) of
        None \<Rightarrow> None
      | Some num_str \<Rightarrow>
         (let s = panic_banner s;
              s = printk num_str [] s;
              s = printk ''\<newline>'' [] s;
              s = print_hex (eip frame) (printk ''- Fault Address (EIP): '' [] s);
              s = printk ''\<newline>'' [] s;
              s = (if interrupt_number frame = 8 \<or> interrupt_number frame \<ge> 10 \<and> interrupt_number frame \<le> 14 then
                     (let s = print_hex (error_code frame) (printk ''- Error Code: '' [] s)
                      in printk ''\<newline>'' [] s)
                   else s);
              s = printk ''\<newline>'' [] s;
              s = show_register_dump frame s;
              s = printk ''=== END PANIC SCREEN ===\<newline>'' [] s;
              s = printk ''\<newline>System halted.\<newline>'' [] s
          in Some (hw HaltLoop s)))"

definition page_fault_report :: "device \<Rightarrow> interrupt_frame \<Rightarrow> 'a machine_scheme \<Rightarrow> 'a machine_scheme" where
  "page_fault_report dev frame s =
     (let faulting_address = fault_address dev (io s);
          s = printk ''EXCEPTION: Page Fault!\<newline>'' [] s;
          s = printk ''Faulting address: 0x%x\<newline>'' [KInt faulting_address] s;
          s = printk ''Error code: 0x%x\<newline>'' [KInt (error_code frame)] s;
          s = printk ''Fault details: '' [] s;
          s = (if error_code frame AND 0x1 \<noteq> 0 then printk ''Page was present '' [] s
               else printk ''Page not present '' [] s);
          s = (if error_code frame AND 0x2 \<noteq> 0 then printk ''Write access '' [] s
               else printk ''Read access '' [] s);
          s = (if error_code frame AND 0x4 \<noteq> 0 then printk ''User mode '' [] s
               else printk ''Kernel mode '' [] s);
          s = (if error_code frame AND 0x8 \<noteq> 0 then printk ''Reserved bit violation '' [] s else s);
          s = (if error_code frame AND 0x10 \<noteq> 0 then printk ''Instruction fetch '' [] s else s)
      in printk ''\<newline>'' [] s)"

definition exception_message :: "u32 \<Rightarrow> string" where
  "exception_message n =
     (if n = 0 then ''EXCEPTION: Division by Zero!\<newline>''
      else if n = 1 then ''EXCEPTION: Debug!\<newline>''
      else if n = 2 then ''EXCEPTION: Non-Maskable Interrupt!\<newline>''
      else if n = 3 then ''EXCEPTION: Breakpoint!\<newline>''
      else if n = 4 then ''EXCEPTION: Overflow!\<newline>''
      else if n = 5 then ''EXCEPTION: Bound Range Exceeded!\<newline>''
      else if n = 6 then ''EXCEPTION: Invalid Opcode!\<newline>''
      else if n = 7 then ''EXCEPTION: Device Not Available!\<newline>''
      else if n = 8 then ''EXCEPTION: Double Fault!\<newline>''
      else if n = 10 then ''EXCEPTION: Invalid TSS!\<newline>''
      else if n = 11 then ''EXCEPTION: Segment Not Present!\<newline>''
      else if n = 12 then ''EXCEPTION: Stack Segment Fault!\<newline>''
      else if n = 13 then ''EXCEPTION: General Protection Fault!\<newline>''
      else if n = 16 then ''EXCEPTION: Floating Point Exception!\<newline>''
      else if n = 17 then ''EXCEPTION: Alignment Check!\<newline>''
      else if n = 18 then ''EXCEPTION: Machine Check!\<newline>''
      else if n = 19 then ''EXCEPTION: SIMD Floating Point Exception!\<newline>''
      else ''EXCEPTION: Unknown interrupt!\<newline>'')"

definition isr_common_stub :: "device \<Rightarrow> interrupt_frame \<Rightarrow> 'a machine_scheme \<Rightarrow> 'a machine_scheme option" where
  "isr_common_stub dev frame s =
     (let s = emit KClear s;
          s = (if interrupt_number frame = 14 then page_fault_report dev frame s
               else printk (exception_message (interrupt_number frame)) [] s)
      in kernel_panic frame s)"

section \<open>Hardware interrupts\<close>

text \<open>
  The default branch of the handler builds the name of the line in a buffer of four characters
  and does nothing with it.
\<close>

definition irq_common_stub :: "device \<Rightarrow> interrupt_frame \<Rightarrow> 'a interrupts_scheme \<Rightarrow> 'a interrupts_scheme option" where
  "irq_common_stub dev frame s =
     (let irq = ucast (interrupt_number frame - 32) :: u8
      in map_option (pic_send_eoi irq)
          (if irq = 0 then Some s
           else if irq = 1 then
             (let (scancode, s) = inb dev 0x60 s
              in Some (keyboard_handler dev scancode s))
           else if irq = 14 then Some s
           else if irq = 15 then Some s
           else (case dec_string 4 (ucast irq) of None \<Rightarrow> None | Some irq_str \<Rightarrow> Some s)))"

end
