(* ===== verification/Timing.thy ===== *)
theory Timing
  imports Interrupts
begin

text \<open>
  Delays by the time stamp counter, \<^verbatim>\<open>src/src/lib/timing.c\<close>. The counter is a field of the
  \<open>device\<close>: what it reads depends on everything done before, the loops that only burn time
  included. A delay that never ends is \<open>None\<close>.
\<close>

section \<open>The code\<close>

record timing = interrupts +
  tsc_frequency :: u64

definition timing_read_tsc :: "device \<Rightarrow> 'a machine_scheme \<Rightarrow> u64 \<times> 'a machine_scheme" where
  "timing_read_tsc dev s = rdtsc dev s"

definition timing_calibrate_tsc_frequency :: "device \<Rightarrow> 'a machine_scheme \<Rightarrow> u64 \<times> 'a machine_scheme" where
  "timing_calibrate_tsc_frequency dev s =
     (let s = printk ''Calibrating TSC frequency...\<newline>'' [] s;
          (start_tsc, s) = timing_read_tsc dev s;
          s = hw (Spin 5000000) s;
          (end_tsc, s) = timing_read_tsc dev s;
          ticks_per_100ms = end_tsc - start_tsc;
          frequency = ticks_per_100ms * 10;
          s = printk ''TSC frequency estimated at %llu Hz\<newline>''
                [KInt (ucast frequency), KInt (ucast (drop_bit 32 frequency))] s
      in (frequency, s))"

definition timing_init :: "device \<Rightarrow> 'a timing_scheme \<Rightarrow> 'a timing_scheme" where
  "timing_init dev s =
     (let s = printk ''Initializing timing subsystem...\<newline>'' [] s;
          (f, s) = timing_calibrate_tsc_frequency dev s;
          s = s\<lparr>tsc_frequency := f\<rparr>
      in printk ''Timing subsystem initialized.\<newline>'' [] s)"

text \<open>\<^verbatim>\<open>while ((timing_read_tsc() - start_tsc) < target_ticks) pause;\<close>\<close>

partial_function (option) delay_loop :: "device \<Rightarrow> u64 \<Rightarrow> u64 \<Rightarrow> 'a machine_scheme \<Rightarrow> 'a machine_scheme option" where
  "delay_loop dev start_tsc target_ticks s =
     (let (now, s) = timing_read_tsc dev s
      in if now - start_tsc < target_ticks then delay_loop dev start_tsc target_ticks s else Some s)"

definition timing_delay_seconds :: "device \<Rightarrow> u32 \<Rightarrow> 'a timing_scheme \<Rightarrow> 'a timing_scheme option" where
  "timing_delay_seconds dev seconds s =
     (if tsc_frequency s = 0 then
        (let s = printk ''Warning: TSC not calibrated, using fallback delay\<newline>'' [] s
         in Some (for_lt seconds (\<lambda>_. hw (Spin 50000000)) s))
      else
        (let target_ticks = tsc_frequency s * ucast seconds;
             (start_tsc, s) = timing_read_tsc dev s
         in delay_loop dev start_tsc target_ticks s))"

definition timing_delay_milliseconds :: "device \<Rightarrow> u32 \<Rightarrow> 'a timing_scheme \<Rightarrow> 'a timing_scheme option" where
  "timing_delay_milliseconds dev milliseconds s =
     (if tsc_frequency s = 0 then
        (let s = printk ''Warning: TSC not calibrated, using fallback delay\<newline>'' [] s
         in Some (for_lt milliseconds (\<lambda>_. hw (Spin 50000)) s))
      else if milliseconds \<ge> 1000 then
        (let seconds = milliseconds div 1000;
             remaining_ms = milliseconds mod 1000
         in map_option (\<lambda>s. if remaining_ms > 0 then hw (Spin (remaining_ms * 50000)) s else s)
              (timing_delay_seconds dev seconds s))
      else Some (hw (Spin (milliseconds * 50000)) s))"

definition timing_get_elapsed_ticks :: "device \<Rightarrow> u64 \<Rightarrow> 'a machine_scheme \<Rightarrow> u64 \<times> 'a machine_scheme" where
  "timing_get_elapsed_ticks dev start_tsc s = (let (now, s) = timing_read_tsc dev s in (now - start_tsc, s))"

lemma timing_init_state:
  "timing_init dev s = s\<lparr>kout := kout (timing_init dev s), io := io s @ [Rdtsc, Spin 5000000, Rdtsc],
     tsc_frequency := (tsc dev (io s @ [Rdtsc, Spin 5000000]) - tsc dev (io s)) * 10\<rparr>" "says s (timing_init dev s)"
  unfolding timing_init_def timing_calibrate_tsc_frequency_def timing_read_tsc_def rdtsc_def Let_def
  by simp_all (simp_all add: emit_def hw_def says_def call_simps)

section \<open>Waiting\<close>

text \<open>The history after \<open>n\<close> readings of the counter.\<close>

definition ticked :: "nat \<Rightarrow> hw_event list \<Rightarrow> hw_event list" where
  "ticked n h = h @ replicate n Rdtsc"

lemma ticked_simps [simp]: "ticked 0 h = h" "ticked n (h @ [Rdtsc]) = ticked (Suc n) h"
  by (simp_all add: ticked_def replicate_append_same)

text \<open>The loop ends at the first reading that is far enough from the start.\<close>

lemma delay_loop_returns:
  "\<not> tsc dev (ticked n (io s)) - start < target \<Longrightarrow>
   \<exists>k\<le>n. delay_loop dev start target s = Some (s\<lparr>io := ticked (Suc k) (io s)\<rparr>) \<and>
     \<not> tsc dev (ticked k (io s)) - start < target \<and>
     (\<forall>j<k. tsc dev (ticked j (io s)) - start < target)"
proof (induction n arbitrary: s)
  case 0
  then have "delay_loop dev start target s = Some (hw Rdtsc s)"
    by (simp add: delay_loop.simps [of dev start target s] timing_read_tsc_def rdtsc_def)
  then show ?case using 0 by (simp add: hw_def ticked_def)
next
  case (Suc n)
  show ?case
  proof (cases "tsc dev (io s) - start < target")
    case False
    then have "delay_loop dev start target s = Some (hw Rdtsc s)"
      by (simp add: delay_loop.simps [of dev start target s] timing_read_tsc_def rdtsc_def)
    then show ?thesis using False by (intro exI [of _ 0]) (simp add: hw_def ticked_def)
  next
    case True
    have io: "io (hw Rdtsc s) = io s @ [Rdtsc]" by simp
    have "\<not> tsc dev (ticked n (io (hw Rdtsc s))) - start < target" using Suc.prems unfolding io by simp
    then obtain k where k: "k \<le> n" "delay_loop dev start target (hw Rdtsc s) = Some (hw Rdtsc s\<lparr>io := ticked (Suc k) (io (hw Rdtsc s))\<rparr>)"
      "\<not> tsc dev (ticked k (io (hw Rdtsc s))) - start < target"
      "\<forall>j<k. tsc dev (ticked j (io (hw Rdtsc s))) - start < target"
      using Suc.IH by blast
    have "delay_loop dev start target s = delay_loop dev start target (hw Rdtsc s)"
      using True by (simp add: delay_loop.simps [of dev start target s] timing_read_tsc_def rdtsc_def)
    then have "delay_loop dev start target s = Some (s\<lparr>io := ticked (Suc (Suc k)) (io s)\<rparr>)"
      using k(2) unfolding io by (simp add: hw_def)
    moreover have "\<forall>j<Suc k. tsc dev (ticked j (io s)) - start < target"
    proof (intro allI impI)
      fix j assume "j < Suc k"
      then show "tsc dev (ticked j (io s)) - start < target"
        using k(4) True unfolding io by (cases j) simp_all
    qed
    ultimately show ?thesis using k(1,3) unfolding io by (intro exI [of _ "Suc k"]) simp
  qed
qed

section \<open>A counter that runs\<close>

text \<open>
  The documented behaviour of the counter the delays rely on: it goes on with everything that
  happens, by some positive number of ticks, and is read often enough.
\<close>

definition tsc_runs :: "device \<Rightarrow> bool" where
  "tsc_runs dev \<longleftrightarrow> (\<forall>h e. \<exists>d. 0 < d \<and> d \<le> 2 ^ 62 \<and> tsc dev (h @ [e]) = tsc dev h + of_nat d)"

lemma tsc_total:
  assumes "tsc_runs dev"
  shows "\<exists>T. T 0 = 0 \<and> (\<forall>n. T n < T (Suc n) \<and> T (Suc n) \<le> T n + 2 ^ 62) \<and>
    (\<forall>n. tsc dev (ticked n h) = tsc dev h + of_nat (T n))"
proof -
  have tick: "ticked n h @ [Rdtsc] = ticked (Suc n) h" for n by (simp add: ticked_def replicate_append_same)
  have "\<forall>n. \<exists>d. 0 < d \<and> d \<le> 2 ^ 62 \<and> tsc dev (ticked (Suc n) h) = tsc dev (ticked n h) + of_nat d"
    using assms unfolding tsc_runs_def tick [symmetric] by blast
  then obtain D where D: "0 < D n" "D n \<le> 2 ^ 62" "tsc dev (ticked (Suc n) h) = tsc dev (ticked n h) + of_nat (D n)" for n
    by metis
  have "tsc dev (ticked n h) = tsc dev h + of_nat (sum D {..<n})" for n
    by (induction n) (simp_all add: D(3) add.assoc)
  then show ?thesis using D(1,2) by (intro exI [of _ "\<lambda>n. sum D {..<n}"]) simp
qed

text \<open>It passes any distance up to \<open>2 ^ 63\<close> ticks, also where it wraps around.\<close>

lemma tsc_passes:
  assumes "tsc_runs dev" "unat target \<le> 2 ^ 63"
  shows "\<exists>n. \<not> tsc dev (ticked n h) - tsc dev h < target"
proof -
  obtain T where T: "T 0 = (0 :: nat)" "\<And>n. T n < T (Suc n)" "\<And>n. T (Suc n) \<le> T n + 2 ^ 62"
    "\<And>n. tsc dev (ticked n h) = tsc dev h + of_nat (T n)"
    using tsc_total [OF assms(1)] by metis
  have "n \<le> T n" for n using T(2) by (induction n) (auto intro: Suc_leI le_less_trans)
  then have ex: "\<exists>n. unat target \<le> T n" by blast
  define n where "n = (LEAST n. unat target \<le> T n)"
  have n: "unat target \<le> T n" unfolding n_def by (rule LeastI_ex [OF ex])
  have "T n < 2 ^ 64"
  proof (cases n)
    case (Suc m)
    then have "\<not> unat target \<le> T m" using not_less_Least [of m "\<lambda>n. unat target \<le> T n"] by (simp add: n_def)
    then show ?thesis using T(3) [of m] assms(2) Suc by simp
  qed (simp add: T(1))
  then have "unat (of_nat (T n) :: u64) = T n" by (simp add: unat_of_nat take_bit_nat_eq_self)
  then have "\<not> tsc dev (ticked n h) - tsc dev h < target" using n by (simp add: T(4) word_less_nat_alt)
  then show ?thesis by blast
qed

lemma unat_product:
  fixes a :: u64 and b :: u32
  assumes "unat a * unat b \<le> 2 ^ 63"
  shows "unat (a * ucast b) = unat a * unat b"
proof -
  have "unat b < 2 ^ 64" using unat32_less [of b] by simp
  then have "unat (ucast b :: u64) = unat b" by (simp add: unsigned_ucast_eq take_bit_nat_eq_self)
  then show ?thesis using assms by (subst unat_word_ariths) simp
qed

end
