(* ===== verification/A20.thy ===== *)
theory A20
  imports Machine
begin

text \<open>
  The A20 gate, \<^verbatim>\<open>enable_a20_gate\<close> and its helpers in \<^verbatim>\<open>src/src/memory/paging.c\<close>. While the
  gate is closed the processor's address line 20 reads zero, so an address above 1 MB reaches
  the byte 1 MB below. The polling of the keyboard controller may never end; that is \<open>None\<close>.
\<close>

section \<open>The code\<close>

text \<open>The physical address an access reaches.\<close>

definition a20_addr :: "device \<Rightarrow> 'a machine_scheme \<Rightarrow> u32 \<Rightarrow> u32" where
  "a20_addr dev s a = (if a20_line dev (io s) then a else a AND NOT 0x100000)"

definition io_wait :: "'a machine_scheme \<Rightarrow> 'a machine_scheme" where
  "io_wait s = outb 0x80 0 s"

definition test_a20 :: "device \<Rightarrow> 'a machine_scheme \<Rightarrow> bool \<times> 'a machine_scheme" where
  "test_a20 dev s =
     (let ptr1 = a20_addr dev s 0x112345;
          ptr2 = a20_addr dev s 0x012345;
          saved = load32 (mem s) ptr1;
          s = s\<lparr>mem := store32 ptr1 0x12345678 (mem s)\<rparr>;
          s = s\<lparr>mem := store32 ptr2 0x87654321 (mem s)\<rparr>;
          result = (load32 (mem s) ptr1 = 0x12345678);
          s = s\<lparr>mem := store32 ptr1 saved (mem s)\<rparr>
      in (result, s))"

text \<open>\<^verbatim>\<open>while (!ready(inb(0x64)));\<close>\<close>

partial_function (option) wait_port :: "device \<Rightarrow> (u8 \<Rightarrow> bool) \<Rightarrow> 'a machine_scheme \<Rightarrow> 'a machine_scheme option" where
  "wait_port dev ready s =
     (let (v, s) = inb dev 0x64 s in if ready v then Some s else wait_port dev ready s)"

definition enable_a20_keyboard :: "device \<Rightarrow> 'a machine_scheme \<Rightarrow> 'a machine_scheme option" where
  "enable_a20_keyboard dev s =
     (let s = printk ''Attempting keyboard controller A20 enable...\<newline>'' [] s;
          s = outb 0x64 0xAD s;
          s = outb 0x64 0xD0 s
      in do {
        s \<leftarrow> wait_port dev (\<lambda>v. v AND 0x01 \<noteq> 0) s;
        let (cmd, s) = inb dev 0x60 s;
        let cmd = cmd OR 0x02;
        let s = outb 0x64 0xD1 s;
        s \<leftarrow> wait_port dev (\<lambda>v. v AND 0x02 = 0) s;
        let s = outb 0x60 cmd s;
        let s = outb 0x64 0xAE s;
        wait_port dev (\<lambda>v. v AND 0x02 = 0) s
      })"

definition enable_a20_fast :: "device \<Rightarrow> 'a machine_scheme \<Rightarrow> 'a machine_scheme" where
  "enable_a20_fast dev s =
     (let s = printk ''Attempting fast A20 enable...\<newline>'' [] s;
          (val, s) = inb dev 0x92 s
      in if val AND 0x02 = 0 then outb 0x92 (val OR 0x02) s else s)"

definition enable_a20_gate :: "device \<Rightarrow> 'a machine_scheme \<Rightarrow> 'a machine_scheme option" where
  "enable_a20_gate dev s =
     (let s = printk ''Enabling A20 gate...\<newline>'' [] s;
          (enabled, s) = test_a20 dev s
      in if enabled then Some (printk ''A20 gate already enabled.\<newline>'' [] s)
         else do {
           s \<leftarrow> enable_a20_keyboard dev s;
           let s = io_wait s;
           let (enabled, s) = test_a20 dev s;
           if enabled then Some (printk ''A20 gate enabled via keyboard controller.\<newline>'' [] s)
           else do {
             let s = enable_a20_fast dev s;
             let s = io_wait s;
             let (enabled, s) = test_a20 dev s;
             if enabled then Some (printk ''A20 gate enabled via fast method.\<newline>'' [] s)
             else Some (printk ''WARNING: Failed to enable A20 gate!\<newline>'' [] s)
           }
         })"

section \<open>The test\<close>

lemma store32_same: "store32 a (load32 m a) m = m"
proof -
  have b: "ucast (load32 m a) = m a" "ucast (drop_bit 8 (load32 m a)) = m (a + 1)"
    "ucast (drop_bit 16 (load32 m a)) = m (a + 2)" "ucast (drop_bit 24 (load32 m a)) = m (a + 3)"
    by (rule bit_word_eqI; auto simp: load32_def bit_simps dest: bit_imp_le_length)+
  show ?thesis unfolding store32_def b by simp
qed

lemma store32_store32: "store32 a v (store32 a w m) = store32 a v m"
  unfolding store32_def by (simp add: fun_eq_iff)

lemma store32_commute:
  assumes "span a 4 \<inter> span b 4 = {}"
  shows "store32 a v (store32 b w m) = store32 b w (store32 a v m)"
  using assms unfolding span4 store32_def by (auto simp: fun_eq_iff)

lemma test_a20_eq:
  "test_a20 dev s = (a20_line dev (io s),
     s\<lparr>mem := if a20_line dev (io s) then store32 0x12345 0x87654321 (mem s) else mem s\<rparr>)"
proof (cases "a20_line dev (io s)")
  case True
  define m1 where "m1 = store32 0x112345 0x12345678 (mem s)"
  have d: "span (0x112345 :: u32) 4 \<inter> span 0x12345 4 = {}" by (simp add: span4)
  have "load32 (store32 0x12345 0x87654321 m1) 0x112345 = load32 m1 0x112345"
    using d by (intro load32_cong ballI store32_frame) auto
  then have r: "load32 (store32 0x12345 0x87654321 m1) 0x112345 = 0x12345678"
    by (simp add: m1_def load32_store32)
  have "store32 0x112345 v (store32 0x12345 0x87654321 m1) = store32 0x12345 0x87654321 (store32 0x112345 v (mem s))" for v
    by (simp add: store32_commute [OF d] m1_def store32_store32)
  then have "store32 0x112345 (load32 (mem s) 0x112345) (store32 0x12345 0x87654321 m1) = store32 0x12345 0x87654321 (mem s)"
    by (simp add: store32_same)
  then show ?thesis using True r by (simp add: test_a20_def a20_addr_def Let_def m1_def)
next
  case False
  then have "(0x112345 :: u32) AND NOT 0x100000 = 0x12345" "(0x12345 :: u32) AND NOT 0x100000 = 0x12345" by simp_all
  then show ?thesis using False
    by (simp add: test_a20_def a20_addr_def Let_def load32_store32 store32_store32 store32_same)
qed

section \<open>Polling\<close>

text \<open>The history of the hardware after \<open>n\<close> reads of the status port.\<close>

primrec polled :: "device \<Rightarrow> nat \<Rightarrow> hw_event list \<Rightarrow> hw_event list" where
  "polled dev 0 h = h"
| "polled dev (Suc n) h = polled dev n (h @ [In 0x64 (port_value dev h 0x64)])"

lemma wait_port_returns:
  "ready (port_value dev (polled dev n (io s)) 0x64) \<Longrightarrow>
   \<exists>k\<le>n. wait_port dev ready s = Some (s\<lparr>io := polled dev (Suc k) (io s)\<rparr>)"
proof (induction n arbitrary: s)
  case 0
  then show ?case by (simp add: wait_port.simps [of dev ready s] hw_def)
next
  case (Suc n)
  show ?case
  proof (cases "ready (port_value dev (io s) 0x64)")
    case True
    then show ?thesis by (intro exI [of _ 0]) (simp add: wait_port.simps [of dev ready s] hw_def)
  next
    case False
    define s1 where "s1 = hw (In 0x64 (port_value dev (io s) 0x64)) s"
    have "ready (port_value dev (polled dev n (io s1)) 0x64)" using Suc.prems by (simp add: s1_def)
    then obtain k where "k \<le> n" "wait_port dev ready s1 = Some (s1\<lparr>io := polled dev (Suc k) (io s1)\<rparr>)"
      using Suc.IH by blast
    moreover have "wait_port dev ready s = wait_port dev ready s1"
      using False by (simp add: wait_port.simps [of dev ready s] s1_def)
    ultimately show ?thesis by (intro exI [of _ "Suc k"]) (simp add: s1_def hw_def)
  qed
qed

lemma wait_port_ends:
  "wait_port dev ready s = Some s' \<Longrightarrow> \<exists>n. ready (port_value dev (polled dev n (io s)) 0x64)"
proof (induction dev ready s s' rule: wait_port.raw_induct [rotated, consumes 1])
  case (1 wait dev ready s s')
  show ?case
  proof (cases "ready (port_value dev (io s) 0x64)")
    case True
    then show ?thesis by (intro exI [of _ 0]) simp
  next
    case False
    define s1 where "s1 = hw (In 0x64 (port_value dev (io s) 0x64)) s"
    have "wait dev ready s1 = Some s'" using 1(2) False by (simp add: s1_def)
    then have "\<exists>n. ready (port_value dev (polled dev n (io s1)) 0x64)" by (rule 1(1))
    then obtain n where "ready (port_value dev (polled dev n (io s1)) 0x64)" by blast
    then show ?thesis by (intro exI [of _ "Suc n"]) (simp add: s1_def)
  qed
qed

text \<open>The polling returns exactly when the controller answers, and only reads the port.\<close>

lemma wait_port_iff:
  "wait_port dev ready s \<noteq> None \<longleftrightarrow> (\<exists>n. ready (port_value dev (polled dev n (io s)) 0x64))"
  using wait_port_returns [of ready dev _ s] wait_port_ends [of dev ready s] by fastforce

lemma wait_port_state:
  assumes "wait_port dev ready s = Some s'"
  shows "\<exists>k. s' = s\<lparr>io := polled dev (Suc k) (io s)\<rparr>"
  using wait_port_ends [OF assms] wait_port_returns [of ready dev _ s] assms by fastforce

lemma says_wait_port:
  assumes "wait_port dev ready s = Some s'"
  shows "kout s' = kout s" "mem s' = mem s"
  using wait_port_state [OF assms] by auto

section \<open>Opening the gate\<close>

text \<open>
  The documented behaviour of the 8042 keyboard controller the polling relies on: the output
  buffer fills some time after the command \<^verbatim>\<open>0xD0\<close>, and the input buffer is emptied some
  time after anything.
\<close>

definition kbc_answers :: "device \<Rightarrow> bool" where
  "kbc_answers dev \<longleftrightarrow>
     (\<forall>h. \<exists>n. port_value dev (polled dev n (h @ [Out 0x64 0xD0])) 0x64 AND 1 \<noteq> 0) \<and>
     (\<forall>h. \<exists>n. port_value dev (polled dev n h) 0x64 AND 2 = 0)"

text \<open>The ports the opening of the gate writes to.\<close>

definition a20_event :: "hw_event \<Rightarrow> bool" where
  "a20_event e \<longleftrightarrow> (case e of Out port v \<Rightarrow> port \<in> {0x60, 0x64, 0x80, 0x92} | In port v \<Rightarrow> True | _ \<Rightarrow> False)"

lemma a20_event_simps [simp]:
  "a20_event (Out port v) \<longleftrightarrow> port \<in> {0x60, 0x64, 0x80, 0x92}" "a20_event (In port v)"
  by (simp_all add: a20_event_def)

text \<open>What only reads a port.\<close>

definition port_read :: "hw_event \<Rightarrow> bool" where
  "port_read e \<longleftrightarrow> (case e of In port v \<Rightarrow> True | _ \<Rightarrow> False)"

lemma port_read_simps [simp]: "port_read (In port v)"
  by (simp add: port_read_def)

lemma port_read_event: "list_all port_read es \<Longrightarrow> list_all a20_event es"
  by (erule list.pred_mono_strong) (auto simp: port_read_def a20_event_def split: hw_event.splits)

lemma polled_reads: "\<exists>es. polled dev n h = h @ es \<and> list_all port_read es"
proof (induction n arbitrary: h)
  case (Suc n)
  obtain es where "polled dev n (h @ [In 0x64 (port_value dev h 0x64)]) = (h @ [In 0x64 (port_value dev h 0x64)]) @ es"
    "list_all port_read es" using Suc by blast
  then show ?case by (intro exI [of _ "In 0x64 (port_value dev h 0x64) # es"]) simp
qed simp

lemma kbc_wait:
  assumes "kbc_answers dev"
  shows "\<exists>es. wait_port dev (\<lambda>v. v AND 0x02 = 0) s = Some (s\<lparr>io := io s @ es\<rparr>) \<and> list_all port_read es"
    "\<exists>es. wait_port dev (\<lambda>v. v AND 0x01 \<noteq> 0) (hw (Out 0x64 0xD0) s) = Some (s\<lparr>io := io s @ es\<rparr>) \<and> list_all a20_event es"
proof -
  obtain n where n: "port_value dev (polled dev n (io s)) 0x64 AND 2 = 0" using assms by (auto simp: kbc_answers_def)
  then obtain k where "wait_port dev (\<lambda>v. v AND 0x02 = 0) s = Some (s\<lparr>io := polled dev (Suc k) (io s)\<rparr>)"
    using wait_port_returns [of "\<lambda>v. v AND 0x02 = 0" dev n s] by auto
  then show "\<exists>es. wait_port dev (\<lambda>v. v AND 0x02 = 0) s = Some (s\<lparr>io := io s @ es\<rparr>) \<and> list_all port_read es"
    using polled_reads [of dev "Suc k" "io s"] by metis
  obtain m where m: "port_value dev (polled dev m (io s @ [Out 0x64 0xD0])) 0x64 AND 1 \<noteq> 0"
    using assms by (auto simp: kbc_answers_def)
  then obtain k where w: "wait_port dev (\<lambda>v. v AND 0x01 \<noteq> 0) (hw (Out 0x64 0xD0) s) =
      Some (hw (Out 0x64 0xD0) s\<lparr>io := polled dev (Suc k) (io (hw (Out 0x64 0xD0) s))\<rparr>)"
    using wait_port_returns [of "\<lambda>v. v AND 0x01 \<noteq> 0" dev m "hw (Out 0x64 0xD0) s"] by auto
  obtain es where es: "polled dev (Suc k) (io (hw (Out 0x64 0xD0) s)) = io (hw (Out 0x64 0xD0) s) @ es" "list_all port_read es"
    using polled_reads by blast
  show "\<exists>es. wait_port dev (\<lambda>v. v AND 0x01 \<noteq> 0) (hw (Out 0x64 0xD0) s) = Some (s\<lparr>io := io s @ es\<rparr>) \<and> list_all a20_event es"
    unfolding w es(1) using port_read_event [OF es(2)] by (intro exI [of _ "Out 0x64 0xD0 # es"]) (simp add: hw_def)
qed

text \<open>
  A request to open the line: the command to write the output port, the new value with the bit
  of the line set, and nothing after it that could close the line again.
\<close>

definition a20_kept :: "hw_event \<Rightarrow> bool" where
  "a20_kept e \<longleftrightarrow> (case e of
     Out port v \<Rightarrow> if port = 0x64 then v = 0xAE else if port = 0x60 \<or> port = 0x92 then bit v 1 else True
   | VesaSetMode \<Rightarrow> False | VesaSetText \<Rightarrow> False | _ \<Rightarrow> True)"

definition a20_request :: "hw_event list \<Rightarrow> bool" where
  "a20_request es \<longleftrightarrow> (\<exists>a r v b. es = a @ Out 0x64 0xD1 # r @ Out 0x60 v # b \<and> list_all port_read r \<and> bit v 1 \<and>
     list_all a20_kept b)"

lemma a20_kept_reads: "list_all port_read es \<Longrightarrow> list_all a20_kept es"
  by (erule list.pred_mono_strong) (auto simp: port_read_def a20_kept_def split: hw_event.splits)

lemma a20_request_append: "a20_request es \<Longrightarrow> list_all a20_kept e \<Longrightarrow> a20_request (es @ e)"
  unfolding a20_request_def by (fastforce simp: list_all_append)

lemma bit_or_two: "bit (v OR 2 :: u8) 1"
  by (simp add: bit_simps)

lemma enable_a20_keyboard_returns:
  assumes "kbc_answers dev"
  shows "\<exists>es. enable_a20_keyboard dev s =
      Some (s\<lparr>kout := kout s @ [KPrintf ''Attempting keyboard controller A20 enable...\<newline>'' []], io := io s @ es\<rparr>) \<and>
    list_all a20_event es \<and> a20_request es"
proof -
  define s1 where "s1 = hw (Out 0x64 0xAD) (printk ''Attempting keyboard controller A20 enable...\<newline>'' [] s)"
  obtain e1 where h1: "wait_port dev (\<lambda>v. v AND 0x01 \<noteq> 0) (hw (Out 0x64 0xD0) s1) = Some (s1\<lparr>io := io s1 @ e1\<rparr>)"
    "list_all a20_event e1" using kbc_wait(2) [OF assms] by blast
  define v where "v = port_value dev (io s1 @ e1) 0x60"
  define s2 where "s2 = hw (Out 0x64 0xD1) (hw (In 0x60 v) (s1\<lparr>io := io s1 @ e1\<rparr>))"
  obtain e2 where h2: "wait_port dev (\<lambda>v. v AND 0x02 = 0) s2 = Some (s2\<lparr>io := io s2 @ e2\<rparr>)"
    "list_all port_read e2" using kbc_wait(1) [OF assms] by blast
  define s3 where "s3 = hw (Out 0x64 0xAE) (hw (Out 0x60 (v OR 2)) (s2\<lparr>io := io s2 @ e2\<rparr>))"
  obtain e3 where h3: "wait_port dev (\<lambda>v. v AND 0x02 = 0) s3 = Some (s3\<lparr>io := io s3 @ e3\<rparr>)"
    "list_all port_read e3" using kbc_wait(1) [OF assms] by blast
  have e: "enable_a20_keyboard dev s = Some (s3\<lparr>io := io s3 @ e3\<rparr>)"
    unfolding enable_a20_keyboard_def Let_def port_simps s1_def [symmetric] h1 using h2(1) h3(1)
    by (simp flip: v_def s2_def s3_def)
  define es where "es = (Out 0x64 0xAD # e1 @ [In 0x60 v]) @ Out 0x64 0xD1 # e2 @ Out 0x60 (v OR 2) # (Out 0x64 0xAE # e3)"
  have "list_all a20_kept (Out 0x64 0xAE # e3)" using a20_kept_reads [OF h3(2)] by (simp add: a20_kept_def)
  then have "a20_request es" unfolding a20_request_def es_def using h2(2) bit_or_two [of v] by blast
  moreover have "list_all a20_event es"
    using h1(2) port_read_event [OF h2(2)] port_read_event [OF h3(2)] by (simp add: es_def)
  moreover have "s3\<lparr>io := io s3 @ e3\<rparr> =
      s\<lparr>kout := kout s @ [KPrintf ''Attempting keyboard controller A20 enable...\<newline>'' []], io := io s @ es\<rparr>"
    by (simp add: s3_def s2_def s1_def es_def hw_def emit_def)
  ultimately show ?thesis using e by auto
qed

text \<open>C40: \<open>test_a20\<close> answers whether the A20 line is on without touching the hardware. With the
  line off it restores memory; with the line on it leaves its second test pattern behind, in
  the four bytes from \<^verbatim>\<open>0x12345\<close> on, which lie in the area of the kernel itself.\<close>
theorem test_a20_exact:
  "fst (test_a20 dev s) = a20_line dev (io s) \<and>
   snd (test_a20 dev s) = s\<lparr>mem := (if a20_line dev (io s) then store32 0x12345 0x87654321 (mem s) else mem s)\<rparr> \<and>
   span 0x12345 4 \<subseteq> {0x8000..<0x20000}"
  by (simp add: test_a20_eq span4 word_le_nat_alt word_less_nat_alt)

text \<open>Nothing bounds the polling: with a controller that never fills its output buffer it does not return.\<close>

lemma enable_a20_keyboard_hangs: "enable_a20_keyboard dev s = None" if "\<forall>n. port_value dev (polled dev n (io s @ [Out 0x64 0xAD, Out 0x64 0xD0])) 0x64 AND 1 = 0"
proof -
  define s1 where "s1 = hw (Out 0x64 0xD0) (hw (Out 0x64 0xAD) (printk ''Attempting keyboard controller A20 enable...\<newline>'' [] s))"
  have "wait_port dev (\<lambda>v. v AND 0x01 \<noteq> 0) s1 = None"
    using wait_port_iff [of dev "\<lambda>v. v AND 0x01 \<noteq> 0" s1] that by (simp add: s1_def)
  then show ?thesis by (simp add: enable_a20_keyboard_def s1_def)
qed

lemma enable_a20_gate_state:
  assumes "kbc_answers dev"
  shows "\<exists>s' es. enable_a20_gate dev s = Some s' \<and> says s s' \<and>
    (last (kout s') = KPrintf ''WARNING: Failed to enable A20 gate!\<newline>'' [] \<longleftrightarrow> \<not> a20_line dev (io s')) \<and>
    (\<forall>x. x \<notin> span 0x12345 4 \<longrightarrow> mem s' x = mem s x) \<and>
    s' = s\<lparr>mem := mem s', kout := kout s', io := io s'\<rparr> \<and> io s' = io s @ es \<and> list_all a20_event es \<and>
    (if a20_line dev (io s) then es = [] else a20_request es)"
proof -
  define s1 where "s1 = printk ''Enabling A20 gate...\<newline>'' [] s"
  obtain e1 where h1: "enable_a20_keyboard dev s1 =
      Some (s1\<lparr>kout := kout s1 @ [KPrintf ''Attempting keyboard controller A20 enable...\<newline>'' []], io := io s1 @ e1\<rparr>)"
    "list_all a20_event e1" "a20_request e1"
    using enable_a20_keyboard_returns [OF assms] by blast
  define s2 where "s2 = io_wait (s1\<lparr>kout := kout s1 @ [KPrintf ''Attempting keyboard controller A20 enable...\<newline>'' []], io := io s1 @ e1\<rparr>)"
  define s3 where "s3 = io_wait (enable_a20_fast dev s2)"
  define v where "v = port_value dev (io s2) 0x92"
  define e3 where "e3 = In 0x92 v # (if v AND 2 = 0 then [Out 0x92 (v OR 2)] else []) @ [Out 0x80 0]"
  note d = s1_def s2_def io_wait_def
  have kept: "list_all a20_kept [Out 0x80 0]" "list_all a20_kept (Out 0x80 0 # e3)"
    using bit_or_two by (simp_all add: a20_kept_def e3_def)
  note req = a20_request_append [OF h1(3)]
  have s3: "s3 = s\<lparr>kout := kout s @ [KPrintf ''Enabling A20 gate...\<newline>'' [],
      KPrintf ''Attempting keyboard controller A20 enable...\<newline>'' [],
      KPrintf ''Attempting fast A20 enable...\<newline>'' []], io := io s @ e1 @ Out 0x80 0 # e3\<rparr>"
    by (simp add: s3_def enable_a20_fast_def Let_def e3_def v_def hw_def emit_def d)
  have ev: "list_all a20_event (e1 @ [Out 0x80 0])" "list_all a20_event (e1 @ Out 0x80 0 # e3)"
    using h1(2) by (simp_all add: e3_def)
  consider "a20_line dev (io s1)" | "\<not> a20_line dev (io s1)" "a20_line dev (io s2)"
    | "\<not> a20_line dev (io s1)" "\<not> a20_line dev (io s2)" by blast
  then show ?thesis
  proof cases
    case 1
    then show ?thesis
      by (simp add: enable_a20_gate_def test_a20_eq s1_def store32_frame) (simp add: emit_def says_def call_simps)
  next
    case 2
    then have "enable_a20_gate dev s = Some (printk ''A20 gate enabled via keyboard controller.\<newline>'' []
        (s2\<lparr>mem := store32 0x12345 0x87654321 (mem s2)\<rparr>))"
      by (simp add: enable_a20_gate_def test_a20_eq Let_def h1 flip: s1_def s2_def)
    then show ?thesis using 2 ev(1) req [OF kept(1)]
      by (simp add: store32_frame d) (simp add: emit_def hw_def says_def call_simps)
  next
    case 3
    then have "enable_a20_gate dev s = Some (if a20_line dev (io s3)
        then printk ''A20 gate enabled via fast method.\<newline>'' [] (s3\<lparr>mem := store32 0x12345 0x87654321 (mem s3)\<rparr>)
        else printk ''WARNING: Failed to enable A20 gate!\<newline>'' [] s3)"
      by (simp add: enable_a20_gate_def test_a20_eq Let_def h1 flip: s1_def s2_def s3_def)
    then show ?thesis using 3(1) ev(2) req [OF kept(2)]
      by (simp add: s3) (simp add: s1_def store32_frame emit_def says_def call_simps)
  qed
qed

text \<open>C21: with a keyboard controller that answers, \<open>enable_a20_gate\<close> returns; it warns exactly when
  the line is still off, does nothing to the hardware when it was on already, and changes
  no memory but the four bytes the test leaves behind.\<close>
theorem enable_a20_gate_returns:
  assumes "kbc_answers dev"
  shows "\<exists>s'. enable_a20_gate dev s = Some s' \<and> says s s' \<and>
    (last (kout s') = KPrintf ''WARNING: Failed to enable A20 gate!\<newline>'' [] \<longleftrightarrow> \<not> a20_line dev (io s')) \<and>
    (a20_line dev (io s) \<longrightarrow> io s' = io s) \<and>
    (\<forall>x. x \<notin> span 0x12345 4 \<longrightarrow> mem s' x = mem s x) \<and>
    s' = s\<lparr>mem := mem s', kout := kout s', io := io s'\<rparr>"
proof -
  obtain s' es where "enable_a20_gate dev s = Some s'" "says s s'"
    "last (kout s') = KPrintf ''WARNING: Failed to enable A20 gate!\<newline>'' [] \<longleftrightarrow> \<not> a20_line dev (io s')"
    "\<forall>x. x \<notin> span 0x12345 4 \<longrightarrow> mem s' x = mem s x" "s' = s\<lparr>mem := mem s', kout := kout s', io := io s'\<rparr>"
    "io s' = io s @ es" "if a20_line dev (io s) then es = [] else a20_request es"
    using enable_a20_gate_state [OF assms] by blast
  then show ?thesis by (intro exI [of _ s']) simp
qed

text \<open>
  The documented effect of the request: the line is open from then on. Nothing the kernel does
  closes it.
\<close>

definition a20_opens :: "device \<Rightarrow> bool" where
  "a20_opens dev \<longleftrightarrow>
     (\<forall>h es. a20_request es \<longrightarrow> a20_line dev (h @ es)) \<and>
     (\<forall>h e. a20_line dev h \<longrightarrow> a20_kept e \<longrightarrow> a20_line dev (h @ [e]))"

lemma a20_stays: "a20_opens dev \<Longrightarrow> a20_line dev h \<Longrightarrow> list_all a20_kept es \<Longrightarrow> a20_line dev (h @ es)"
proof (induction es rule: rev_induct)
  case (snoc e es)
  then have "a20_line dev (h @ es)" by simp
  moreover have "a20_kept e" using snoc.prems by simp
  ultimately have "a20_line dev ((h @ es) @ [e])" using snoc.prems(1) unfolding a20_opens_def by blast
  then show ?case by simp
qed simp

text \<open>A controller that is always ready, with its output buffer full and its input buffer empty.\<close>

definition idle_device :: device where
  "idle_device = \<lparr>port_value = (\<lambda>_ _. 1), a20_line = list_ex (\<lambda>e. case e of Out port v \<Rightarrow> port = 0x60 \<and> bit v 1 | _ \<Rightarrow> False), tsc = (\<lambda>h. of_nat (length h)),
     fault_address = (\<lambda>_. 0), vesa_set_mode = (\<lambda>_. 1), vesa_set_text = (\<lambda>_. 1), lfb_address = (\<lambda>_. 0),
     mode_width = (\<lambda>_. 0), mode_height = (\<lambda>_. 0), mode_bpp = (\<lambda>_. 0)\<rparr>"

definition blank_machine :: machine where
  "blank_machine = \<lparr>mem = (\<lambda>_. 0), kout = [], io = [], cr0 = 0, cr3 = 0, cr4 = 0\<rparr>"

lemma idle_device_answers: "kbc_answers idle_device"
  by (simp add: kbc_answers_def idle_device_def)

lemma idle_device_opens: "a20_opens idle_device"
  by (auto simp: a20_opens_def idle_device_def a20_request_def)

theorem enable_a20_gate_returns_witness:
  "\<exists>s'. enable_a20_gate idle_device blank_machine = Some s' \<and>
    (last (kout s') = KPrintf ''WARNING: Failed to enable A20 gate!\<newline>'' [] \<longleftrightarrow> \<not> a20_line idle_device (io s'))"
  using enable_a20_gate_returns [OF idle_device_answers] by blast

end
