(* ===== verification/Power_On.thy ===== *)
theory Power_On
  imports Timing A20 Boot_Memory
begin

text \<open>
  The state of the whole kernel at power on: every static variable at its initial value,
  memory and the hardware as they are found.
\<close>

definition kernel_power_on :: "memory \<Rightarrow> timing" where
  "kernel_power_on m =
     interrupts.extend (keyboard.extend (display.extend (paging.extend (paging_power_on m)
       (display.fields 0)) (keyboard.fields False False False False))
       (interrupts.fields (replicate 256 \<lparr>offset_low = 0, selector = 0, zero = 0, type_attr = 0, offset_high = 0\<rparr>)))
       (timing.fields 0)"

lemma kernel_power_on_facts [simp]:
  "mem (kernel_power_on m) = m" "kout (kernel_power_on m) = []" "io (kernel_power_on m) = []"
  "\<not> pmm_initialized (kernel_power_on m)" "length (pmm_regions (kernel_power_on m)) = 16"
  "current_mode (kernel_power_on m) = 0" "length (idt (kernel_power_on m)) = 256" "tsc_frequency (kernel_power_on m) = 0"
  "\<not> shift_pressed (kernel_power_on m)" "\<not> alt_pressed (kernel_power_on m)"
  "\<not> caps_lock (kernel_power_on m)" "\<not> vesa_mode_active (kernel_power_on m)"
  by (simp_all add: kernel_power_on_def paging_power_on_def pmm_power_on_def timing.defs interrupts.defs keyboard.defs
      display.defs paging.defs pmm.defs)

lemma kernel_power_on_fresh: "fresh_paging (kernel_power_on m)"
  by (simp add: fresh_paging_def kernel_power_on_def paging_power_on_def pmm_power_on_def timing.defs interrupts.defs
      keyboard.defs display.defs paging.defs pmm.defs)

end
