(* ===== verification/Timing_Props.thy ===== *)
theory Timing_Props
  imports Power_On
begin

text \<open>The properties of the delays and of the calibration of the time stamp counter.\<close>

text \<open>C22: a calibrated \<open>timing_delay_seconds\<close> returns, also across a wrap-around of the counter: it
  ends with the first reading at least \<open>tsc_frequency * seconds\<close> ticks after the first one and
  does nothing but read the counter, provided the counter runs and the product is at most
  \<open>2 ^ 63\<close>.\<close>
theorem timing_delay_seconds_waits:
  assumes "tsc_runs dev" "tsc_frequency s \<noteq> 0" "unat (tsc_frequency s) * unat seconds \<le> 2 ^ 63"
  defines "elapsed \<equiv> \<lambda>k. unat (tsc dev (io s @ replicate k Rdtsc) - tsc dev (io s))"
  shows "\<exists>k>0. timing_delay_seconds dev seconds s = Some (s\<lparr>io := io s @ replicate (Suc k) Rdtsc\<rparr>) \<and>
    unat (tsc_frequency s) * unat seconds \<le> elapsed k \<and>
    (\<forall>j. 0 < j \<and> j < k \<longrightarrow> elapsed j < unat (tsc_frequency s) * unat seconds)"
proof -
  define target where "target = tsc_frequency s * ucast seconds"
  define s1 where "s1 = hw Rdtsc s"
  have ut: "unat target = unat (tsc_frequency s) * unat seconds"
    unfolding target_def by (rule unat_product [OF assms(3)])
  have io: "io s1 = ticked 1 (io s)" by (simp add: s1_def ticked_def)
  have ti: "ticked k (io s1) = ticked (Suc k) (io s)" for k unfolding io by (simp add: ticked_def)
  have "\<exists>n. \<not> tsc dev (ticked n (io s1)) - tsc dev (io s) < target"
  proof -
    obtain n where n: "\<not> tsc dev (ticked n (io s)) - tsc dev (io s) < target"
      using tsc_passes [OF assms(1)] assms(3) ut by metis
    show ?thesis
    proof (cases n)
      case 0
      then have "target = 0" using n by (simp add: not_less)
      then show ?thesis by simp
    next
      case (Suc m)
      then have "\<not> tsc dev (ticked m (io s1)) - tsc dev (io s) < target" using n unfolding ti by simp
      then show ?thesis ..
    qed
  qed
  then obtain n where "\<not> tsc dev (ticked n (io s1)) - tsc dev (io s) < target" ..
  from delay_loop_returns [OF this] obtain k where k:
    "delay_loop dev (tsc dev (io s)) target s1 = Some (s1\<lparr>io := ticked (Suc k) (io s1)\<rparr>)"
    "\<not> tsc dev (ticked k (io s1)) - tsc dev (io s) < target"
    "\<forall>j<k. tsc dev (ticked j (io s1)) - tsc dev (io s) < target" by blast
  have e: "tsc dev (ticked j (io s)) - tsc dev (io s) < target \<longleftrightarrow> elapsed j < unat target" for j
    by (simp add: elapsed_def ticked_def word_less_nat_alt)
  have "timing_delay_seconds dev seconds s = Some (s\<lparr>io := ticked (Suc (Suc k)) (io s)\<rparr>)"
    using assms(2) k(1) unfolding ti
    by (simp add: timing_delay_seconds_def timing_read_tsc_def rdtsc_def target_def s1_def) (simp add: hw_def)
  moreover have "\<not> elapsed (Suc k) < unat target" using k(2) unfolding ti e .
  moreover have "elapsed j < unat target" if j: "0 < j" "j < Suc k" for j
  proof -
    obtain i where "j = Suc i" "i < k" using j by (cases j) auto
    then show ?thesis using k(3) unfolding ti e by blast
  qed
  ultimately show ?thesis unfolding ut ticked_def not_less
    by (intro exI [of _ "Suc k"]) blast
qed

lemma idle_tsc_runs: "tsc_runs idle_device"
  unfolding tsc_runs_def by (intro allI exI [of _ 1]) (simp add: idle_device_def)

theorem timing_delay_seconds_waits_witness:
  "\<exists>k>0. timing_delay_seconds idle_device 3 (kernel_power_on (\<lambda>_. 0)\<lparr>tsc_frequency := 10\<rparr>) =
     Some (kernel_power_on (\<lambda>_. 0)\<lparr>tsc_frequency := 10, io := replicate (Suc k) Rdtsc\<rparr>)"
  using timing_delay_seconds_waits [OF idle_tsc_runs, of "kernel_power_on (\<lambda>_. 0)\<lparr>tsc_frequency := 10\<rparr>" 3] by auto

section \<open>Calibration\<close>

text \<open>C39: \<open>timing_init\<close> takes ten times the ticks of a loop of five million iterations for the
  frequency, touches nothing else of the kernel's state and always prints successfully, but the
  report does not show the frequency: the format's \<^verbatim>\<open>%llu\<close> is no conversion of \<open>kprintf\<close>
  and comes out as it stands, whatever the frequency.\<close>
theorem timing_init_calibrates:
  "let s' = timing_init dev s; h = io s in
     tsc_frequency s' = (tsc dev (h @ [Rdtsc, Spin 5000000]) - tsc dev h) * 10 \<and>
     s' = s\<lparr>kout := kout s', io := h @ [Rdtsc, Spin 5000000, Rdtsc], tsc_frequency := tsc_frequency s'\<rparr> \<and>
     says s s' \<and>
     (\<exists>args. kout s' ! (length (kout s) + 2) = KPrintf ''TSC frequency estimated at %llu Hz\<newline>'' args \<and>
        render ''TSC frequency estimated at %llu Hz\<newline>'' args = Some ''TSC frequency estimated at %llu Hz\<newline>'')"
proof -
  have "render_conv CHR ''l'' args = Some (args, ''%l'')" for args by (simp add: render_conv_def)
  then show ?thesis
    unfolding timing_init_def timing_calibrate_tsc_frequency_def timing_read_tsc_def rdtsc_def Let_def
    by simp (simp add: emit_def hw_def says_def call_simps nth_append)
qed

end
