(* ===== verification/Interrupt_Props.thy ===== *)
theory Interrupt_Props
  imports Power_On
begin

text \<open>
  The properties of the interrupt code: the hand-written number printers agree with the
  console's conversions, every exception ends in a halt behind a complete report, and the
  descriptor table and the controllers together bring each hardware interrupt to its stub.
\<close>

section \<open>The number printers\<close>

lemma digit_positions:
  assumes "2 \<le> b" "n < b ^ k"
  shows "replicate (k - length (nat_digits b n)) 0 @ rev (nat_digits b n) = map (\<lambda>i. n div b ^ (k - 1 - i) mod b) [0..<k]"
  using assms(2)
proof (induction k arbitrary: n)
  case 0
  then show ?case by simp
next
  case (Suc k)
  have lt: "n div b < b ^ k" using Suc.prems by (simp add: less_mult_imp_div_less mult.commute)
  have e: "n div b div b ^ (k - Suc i) = n div b ^ (k - i)" if "i < k" for i
  proof -
    have "k - i = Suc (k - Suc i)" using that by simp
    then have "b * b ^ (k - Suc i) = b ^ (k - i)" by (simp only: power_Suc)
    then show ?thesis by (simp add: div_mult2_eq [symmetric])
  qed
  have map_e: "map (\<lambda>i. n div b div b ^ (k - 1 - i) mod b) [0..<k] = map (\<lambda>i. n div b ^ (k - i) mod b) [0..<k]"
    using e by (intro map_cong) auto
  show ?case
  proof (cases "n = 0")
    case True
    then show ?thesis by (simp add: map_replicate_const replicate_append_same)
  next
    case False
    then show ?thesis
      using Suc.IH [OF lt] assms(1) map_e by (simp add: nat_digits_step)
  qed
qed

lemma hex_digit: "d < 16 \<Longrightarrow> hex_chars ! d = digit_char True d"
  by (simp add: hex_chars_def digit_char_def digit_set_def)

lemma and_mod16: "unat (v AND 0xF) = unat v mod 16" for v :: u32
proof -
  have "v AND mask 4 = take_bit 4 v" by (simp add: take_bit_eq_mask)
  then show ?thesis by (simp add: mask_eq_exp_minus_1 unat_take_bit32)
qed

lemma drop4: "unat (drop_bit n v) = unat v div 2 ^ n" for v :: u32
  by (rule unat_drop_bit32)

lemma hex_loop:
  fixes v :: u32
  assumes "k \<le> length buf"
  shows "fst (fold (\<lambda>i (buffer, v). (buffer[i := hex_chars ! unat (v AND 0xF)], drop_bit 4 v)) (rev [0..<k]) (buf, v)) =
    map (\<lambda>i. digit_char True (unat v div 16 ^ (k - Suc i) mod 16)) [0..<k] @ drop k buf"
  using assms
proof (induction k arbitrary: buf v)
  case 0
  then show ?case by simp
next
  case (Suc k)
  have d: "drop k (buf[k := x]) = x # drop (Suc k) buf" for x
    using Suc.prems by (simp add: drop_update_swap flip: Cons_nth_drop_Suc)
  have e: "unat v div 16 div 16 ^ (k - Suc i) = unat v div 16 ^ (k - i)" if "i < k" for i
  proof -
    have "k - i = Suc (k - Suc i)" using that by simp
    then show ?thesis by (simp only: power_Suc div_mult2_eq)
  qed
  have "map (\<lambda>i. digit_char True (unat (drop_bit 4 v) div 16 ^ (k - Suc i) mod 16)) [0..<k] =
      map (\<lambda>i. digit_char True (unat v div 16 ^ (k - i) mod 16)) [0..<k]"
    using e drop4 [of 4 v] by (intro map_cong) simp_all
  moreover have "k \<le> length (buf[k := hex_chars ! unat (v AND 0xF)])" using Suc.prems by simp
  note Suc.IH [OF this, of "drop_bit 4 v"]
  ultimately show ?case by (simp add: d) (simp add: and_mod16 hex_digit)
qed

lemma hex_buffer_eq: "hex_buffer v = map (\<lambda>i. digit_char True (unat v div 16 ^ (8 - Suc i) mod 16)) [0..<8]"
  using hex_loop [of 8 "''00000000''" v] by (simp add: hex_buffer_def)

text \<open>The digits of \<open>print_hex\<close> are those of the number with zeros in front.\<close>

lemma hex_buffer_render:
  "hex_buffer v = replicate (8 - length (nat_digits 16 (unat v))) (CHR ''0'') @ rev (map (digit_char True) (nat_digits 16 (unat v)))"
proof -
  have z: "digit_char True 0 = CHR ''0''" by (simp add: digit_char_def digit_set_def)
  have "hex_buffer v = map (digit_char True) (map (\<lambda>i. unat v div 16 ^ (8 - 1 - i) mod 16) [0..<8])"
    by (simp add: hex_buffer_eq)
  also have "\<dots> = map (digit_char True) (replicate (8 - length (nat_digits 16 (unat v))) 0 @ rev (nat_digits 16 (unat v)))"
    using unat32_less [of v] by (subst digit_positions) simp_all
  finally show ?thesis by (simp add: z rev_map map_replicate)
qed

lemma length_hex_digits: "length (nat_digits 16 (unat (v :: u32))) \<le> 8"
  using unat32_less [of v] by (intro length_nat_digits) simp_all

lemma hex_buffer_pad: "render_pad 8 (render_nat 16 True (unat v)) = Some (hex_buffer v)"
proof (cases "v = 0")
  case True
  then show ?thesis
    by (simp add: render_pad_def render_nat_def hex_buffer_render replicate_append_same eval_nat_numeral)
next
  case False
  then have r: "render_nat 16 True (unat v) = rev (map (digit_char True) (nat_digits 16 (unat v)))"
    by (simp add: render_nat_def unat_eq_zero)
  show ?thesis using length_hex_digits [of v] by (auto simp: render_pad_def r hex_buffer_render)
qed

text \<open>A string without a percent sign is its own rendering.\<close>

lemma render_plain: "CHR ''%'' \<notin> set str \<Longrightarrow> render str args = Some str"
  by (induction str) auto

lemma plain_call_ok: "CHR ''%'' \<notin> set str \<Longrightarrow> call_ok str args"
proof -
  have "CHR ''%'' \<notin> set str \<Longrightarrow> format_kinds str = Some []" by (induction str) auto
  then show "CHR ''%'' \<notin> set str \<Longrightarrow> call_ok str args" by (simp add: call_ok_def)
qed

lemma digit_char_plain: "d < 16 \<Longrightarrow> digit_char up d \<noteq> CHR ''%''"
proof -
  have "\<forall>d \<in> set [0..<16]. digit_set True ! d \<noteq> CHR ''%'' \<and> digit_set False ! d \<noteq> CHR ''%''" by code_simp
  then have "\<forall>d \<in> set [0..<16]. digit_set up ! d \<noteq> CHR ''%''" by (cases up) simp_all
  then show "d < 16 \<Longrightarrow> digit_char up d \<noteq> CHR ''%''" by (simp add: digit_char_def)
qed

lemma hex_buffer_plain: "CHR ''%'' \<notin> set (hex_buffer v)"
  using digit_char_plain [of _ True] by (auto simp: hex_buffer_eq dest: sym)

lemma dec_digit: "d < 10 \<Longrightarrow> char_of (48 + d) = digit_char False d"
proof -
  have "\<forall>d \<in> set [0..<10]. char_of (48 + d) = digit_set False ! d" by code_simp
  then show "d < 10 \<Longrightarrow> char_of (48 + d) = digit_char False d" by (simp add: digit_char_def)
qed

declare dec_loop.simps [simp del]

lemma dec_loop_eq:
  "length (nat_digits 10 (unat num)) \<le> room \<Longrightarrow>
   dec_loop room num temp = Some (temp @ map (digit_char False) (nat_digits 10 (unat num)))"
proof (induction room num temp rule: dec_loop.induct)
  case (1 room num temp)
  show ?case
  proof (cases "num = 0")
    case True
    then show ?thesis by (simp add: dec_loop.simps [of room 0])
  next
    case False
    then have n: "0 < unat num" by (simp add: unat_gt_0)
    with "1.prems" obtain room' where r: "room = Suc room'" by (cases room) (simp_all add: nat_digits_step)
    have "dec_loop room' (num div 10) (temp @ [char_of (48 + unat (num mod 10))]) =
        Some ((temp @ [char_of (48 + unat (num mod 10))]) @ map (digit_char False) (nat_digits 10 (unat (num div 10))))"
      using "1.prems" n r False by (intro "1.IH") (simp_all add: nat_digits_step unat_div word_gt_0)
    then show ?thesis using False n r
      by (simp add: dec_loop.simps [of "Suc room'" num] word_gt_0 nat_digits_step unat_div unat_mod dec_digit)
  qed
qed

lemma dec_string_eq:
  assumes "unat num < 10 ^ k" "k < sz"
  shows "dec_string sz num = Some (render_nat 10 False (unat num))"
proof -
  have l: "length (nat_digits 10 (unat num)) \<le> k" using assms(1) by (intro length_nat_digits) simp_all
  then show ?thesis using assms(2)
    by (auto simp: dec_string_def dec_loop_eq render_nat_def unat_eq_zero rev_map)
qed

lemma dec_string_32: "dec_string 12 num = Some (render_nat 10 False (unat num))"
  using unat32_less [of num] by (intro dec_string_eq [of num 10]) simp_all

lemma render_nat_plain: "CHR ''%'' \<notin> set (render_nat 10 False n)"
proof -
  have "d \<in> set (nat_digits 10 n) \<Longrightarrow> digit_char False d \<noteq> CHR ''%''" for d
    using nat_digits_less [of 10 d n] by (intro digit_char_plain) simp
  then show ?thesis by (auto simp: render_nat_def dest: sym)
qed

text \<open>C26: the hand-written number printers of the exception code are equivalent to the console's
  conversions: \<open>print_hex\<close> prints what \<^verbatim>\<open>0x%08X\<close> prints, and the decimal digits \<open>kernel_panic\<close>
  collects fit its buffers and are those of \<^verbatim>\<open>%u\<close>.\<close>
theorem number_printers_agree:
  "print_hex v s = s\<lparr>kout := kout s @ [KPrintf ''0x'' [], KPrintf (hex_buffer v) []]\<rparr> \<and>
   console_run [KPrintf ''0x'' [], KPrintf (hex_buffer v) []] c = kprintf ''0x%08X'' [KInt v] c \<and>
   map_option (\<lambda>str. fold kputchar str c) (dec_string 12 v) = kprintf ''%u'' [KInt v] c"
proof (intro conjI)
  show "print_hex v s = s\<lparr>kout := kout s @ [KPrintf ''0x'' [], KPrintf (hex_buffer v) []]\<rparr>"
    by (simp add: print_hex_def emit_def)
  have "render ''0x%08X'' [KInt v] = Some (''0x'' @ hex_buffer v)"
    using hex_buffer_pad [of v] by (simp add: render_padded_def is_digit_def parse_padding_def)
  then show "console_run [KPrintf ''0x'' [], KPrintf (hex_buffer v) []] c = kprintf ''0x%08X'' [KInt v] c"
    using render_plain [OF hex_buffer_plain] by (simp add: kprintf_render)
  show "map_option (\<lambda>str. fold kputchar str c) (dec_string 12 v) = kprintf ''%u'' [KInt v] c"
    by (simp add: dec_string_32 kprintf_render render_conv_def)
qed

section \<open>Exceptions\<close>

text \<open>What the parts of the report add to the console's calls.\<close>

definition adds :: "kcall list \<Rightarrow> 'a machine_scheme \<Rightarrow> 'a machine_scheme \<Rightarrow> bool" where
  "adds ks s s' \<longleftrightarrow> s' = s\<lparr>kout := kout s @ ks\<rparr>"

lemma adds_says: "adds ks s s' \<Longrightarrow> list_all kcall_ok ks \<Longrightarrow> says s s'"
  by (auto simp: adds_def says_def)

lemma adds_nil [simp]: "adds [] s s"
  by (simp add: adds_def)

lemma adds_trans: "adds ks s s' \<Longrightarrow> adds ks' s' s'' \<Longrightarrow> adds (ks @ ks') s s''"
  by (simp add: adds_def)

lemma adds_emit: "adds ks s s' \<Longrightarrow> adds (ks @ [k]) s (emit k s')"
  by (simp add: adds_def emit_def)

definition hex_calls :: "string \<Rightarrow> u32 \<Rightarrow> kcall list" where
  "hex_calls label v = [KPrintf label [], KPrintf ''0x'' [], KPrintf (hex_buffer v) []]"

lemma adds_hex: "adds ks s s' \<Longrightarrow> adds (ks @ hex_calls label v) s (print_hex v (printk label [] s'))"
  by (simp add: adds_def hex_calls_def print_hex_def emit_def)

lemma hex_calls_ok: "CHR ''%'' \<notin> set label \<Longrightarrow> list_all kcall_ok (hex_calls label v)"
  by (simp add: hex_calls_def plain_call_ok hex_buffer_plain)

lemma adds_if: "adds ks s s' \<Longrightarrow> adds (ks @ (if c then [k] else [k'])) s (if c then emit k s' else emit k' s')"
  "adds ks s s' \<Longrightarrow> adds (ks @ (if c then [k] else [])) s (if c then emit k s' else s')"
  by (simp_all add: adds_emit)

lemma adds_error: "adds ks s s' \<Longrightarrow>
  adds (ks @ (if c then hex_calls label v @ [k] else [])) s (if c then emit k (print_hex v (printk label [] s')) else s')"
  using adds_emit [OF adds_hex [of ks s s' label v]] by (cases c) simp_all

lemmas adds_rules = adds_hex adds_error adds_if adds_emit adds_nil

lemma hex_not_label: "length label \<noteq> 8 \<Longrightarrow> label \<noteq> hex_buffer v"
proof -
  have "length (hex_buffer v) = 8" by (simp add: hex_buffer_eq)
  then show "length label \<noteq> 8 \<Longrightarrow> label \<noteq> hex_buffer v" by auto
qed

text \<open>The calls of the report that mention no error code.\<close>

definition plain_report :: "kcall list \<Rightarrow> bool" where
  "plain_report ks \<longleftrightarrow> list_all kcall_ok ks \<and> KPrintf ''- Error Code: '' [] \<notin> set ks"

lemma plain_report_simps:
  "plain_report []" "plain_report (ks @ ks') \<longleftrightarrow> plain_report ks \<and> plain_report ks'"
  "plain_report (KPrintf str [] # ks) \<longleftrightarrow> call_ok str [] \<and> str \<noteq> ''- Error Code: '' \<and> plain_report ks"
  "plain_report (KPrintf str (a # as) # ks) \<longleftrightarrow> call_ok str (a # as) \<and> plain_report ks"
  "plain_report (KClear # ks) \<longleftrightarrow> plain_report ks"
  "plain_report (hex_calls label v) \<longleftrightarrow> call_ok label [] \<and> label \<noteq> ''- Error Code: ''"
  using hex_not_label [of "''- Error Code: ''" v] by (auto simp: plain_report_def hex_calls_def plain_call_ok hex_buffer_plain)

lemma panic_banner_adds: "\<exists>ks. adds ks s (panic_banner s) \<and> plain_report ks"
  unfolding panic_banner_def Let_def
  by (rule exI, rule conjI, (rule adds_rules)+) (simp add: plain_report_simps plain_call_ok)

lemma register_dump_adds: "\<exists>ks. adds ks s (show_register_dump frame s) \<and> plain_report ks"
  unfolding show_register_dump_def Let_def
  by (rule exI, rule conjI, (rule adds_rules)+) (simp add: plain_report_simps plain_call_ok)

lemma page_fault_adds: "\<exists>ks. adds ks s (page_fault_report dev frame s) \<and> plain_report ks \<and>
    KPrintf ''Faulting address: 0x%x\<newline>'' [KInt (fault_address dev (io s))] \<in> set ks"
  unfolding page_fault_report_def Let_def
  by (rule exI, rule conjI, (rule adds_rules)+) (simp add: plain_report_simps plain_call_ok call_simps)

lemma exception_message_plain: "CHR ''%'' \<notin> set (exception_message n)" "exception_message n \<noteq> ''- Error Code: ''"
  by (simp_all add: exception_message_def)

lemma kernel_panic_adds:
  "\<exists>s' ks. kernel_panic frame s = Some (hw HaltLoop s') \<and> adds ks s s' \<and> list_all kcall_ok ks \<and>
     (KPrintf ''- Error Code: '' [] \<in> set ks \<longleftrightarrow> interrupt_number frame \<in> {8, 10, 11, 12, 13, 14}) \<and>
     KPrintf (render_nat 10 False (unat (interrupt_number frame))) [] \<in> set ks \<and>
     ks \<noteq> [] \<and> last ks = KPrintf ''\<newline>System halted.\<newline>'' []"
proof -
  define n where "n = interrupt_number frame"
  define num where "num = render_nat 10 False (unat n)"
  define e where "e \<longleftrightarrow> n = 8 \<or> n \<ge> 10 \<and> n \<le> 14"
  define ke where "ke = hex_calls ''- Error Code: '' (error_code frame) @ [KPrintf ''\<newline>'' []]"
  obtain kb where b: "adds kb s (panic_banner s)" "plain_report kb" using panic_banner_adds by blast
  define k1 where "k1 = kb @ [KPrintf num []] @ [KPrintf ''\<newline>'' []] @ hex_calls ''- Fault Address (EIP): '' (eip frame) @
    [KPrintf ''\<newline>'' []]"
  define s1 where "s1 = printk ''\<newline>'' [] (print_hex (eip frame) (printk ''- Fault Address (EIP): '' []
    (printk ''\<newline>'' [] (printk num [] (panic_banner s)))))"
  have a1: "adds k1 s s1" using adds_emit [OF adds_hex [OF adds_emit [OF adds_emit [OF b(1)]]]] by (simp add: k1_def s1_def)
  define s2 where "s2 = printk ''\<newline>'' [] (if e then printk ''\<newline>'' [] (print_hex (error_code frame) (printk ''- Error Code: '' [] s1)) else s1)"
  have a2: "adds (k1 @ (if e then ke else []) @ [KPrintf ''\<newline>'' []]) s s2"
    using adds_emit [OF adds_error [OF a1]] unfolding s2_def ke_def by fastforce
  obtain kd where d: "adds kd s2 (show_register_dump frame s2)" "plain_report kd" using register_dump_adds by blast
  define s3 where "s3 = printk ''\<newline>System halted.\<newline>'' [] (printk ''=== END PANIC SCREEN ===\<newline>'' [] (show_register_dump frame s2))"
  define k3 where "k3 = kd @ [KPrintf ''=== END PANIC SCREEN ===\<newline>'' [], KPrintf ''\<newline>System halted.\<newline>'' []]"
  have a3: "adds (k1 @ (if e then ke else []) @ [KPrintf ''\<newline>'' []] @ k3) s s3"
    using adds_emit [OF adds_emit [OF adds_trans [OF a2 d(1)]]] by (simp add: s3_def k3_def)
  have panic: "kernel_panic frame s = Some (hw HaltLoop s3)"
    by (simp add: kernel_panic_def dec_string_32 Let_def s3_def s2_def s1_def e_def num_def n_def)
  have num: "CHR ''%'' \<notin> set num" "num \<noteq> ''- Error Code: ''"
  proof -
    show "CHR ''%'' \<notin> set num" unfolding num_def by (rule render_nat_plain)
    have "length num \<le> 10"
      using length_nat_digits [of 10 "unat n" 10] unat32_less [of n] by (simp add: num_def length_render_nat)
    then show "num \<noteq> ''- Error Code: ''" by auto
  qed
  have "plain_report k1" using b(2) num by (simp add: k1_def plain_report_simps plain_call_ok)
  moreover have "plain_report k3" using d(2) by (simp add: k3_def plain_report_simps plain_call_ok)
  moreover have "list_all kcall_ok ke" "KPrintf ''- Error Code: '' [] \<in> set ke"
    by (simp_all add: ke_def hex_calls_def plain_call_ok hex_buffer_plain)
  ultimately have "list_all kcall_ok (k1 @ (if e then ke else []) @ [KPrintf ''\<newline>'' []] @ k3)"
    "KPrintf ''- Error Code: '' [] \<in> set (k1 @ (if e then ke else []) @ [KPrintf ''\<newline>'' []] @ k3) \<longleftrightarrow> e"
    by (simp_all add: plain_report_def plain_call_ok)
  moreover have "e \<longleftrightarrow> n \<in> {8, 10, 11, 12, 13, 14}"
  proof
    assume e
    then have "unat n = 8 \<or> 10 \<le> unat n \<and> unat n \<le> 14" by (auto simp: e_def word_le_nat_alt)
    then have "unat n \<in> {8, 10, 11, 12, 13, 14}" by auto
    then show "n \<in> {8, 10, 11, 12, 13, 14}" by (auto simp: word_unat_eq_iff)
  qed (auto simp: e_def)
  moreover have "KPrintf num [] \<in> set k1" by (simp add: k1_def)
  moreover have "last (k1 @ (if e then ke else []) @ [KPrintf ''\<newline>'' []] @ k3) = KPrintf ''\<newline>System halted.\<newline>'' []"
    by (simp add: k3_def)
  ultimately show ?thesis using panic a3 unfolding n_def num_def by (intro exI conjI) (assumption | simp)+
qed

lemma exception_report:
  "\<exists>ks. isr_common_stub dev frame s = Some (s\<lparr>kout := kout s @ KClear # ks, io := io s @ [HaltLoop]\<rparr>) \<and>
     list_all kcall_ok ks \<and>
     (if interrupt_number frame = 14
      then KPrintf ''Faulting address: 0x%x\<newline>'' [KInt (fault_address dev (io s))] \<in> set ks
      else hd ks = KPrintf (exception_message (interrupt_number frame)) []) \<and>
     KPrintf (render_nat 10 False (unat (interrupt_number frame))) [] \<in> set ks \<and>
     (KPrintf ''- Error Code: '' [] \<in> set ks \<longleftrightarrow> interrupt_number frame \<in> {8, 10, 11, 12, 13, 14}) \<and>
     last ks = KPrintf ''\<newline>System halted.\<newline>'' []"
proof -
  define n where "n = interrupt_number frame"
  define s1 where "s1 = emit KClear s"
  have a1: "adds [KClear] s s1" using adds_emit [OF adds_nil, of KClear s] by (simp add: s1_def)
  define s2 where "s2 = (if n = 14 then page_fault_report dev frame s1 else printk (exception_message n) [] s1)"
  have "\<exists>km. adds km s1 s2 \<and> plain_report km \<and> (if n = 14
      then KPrintf ''Faulting address: 0x%x\<newline>'' [KInt (fault_address dev (io s))] \<in> set km
      else km = [KPrintf (exception_message n) []])"
  proof (cases "n = 14")
    case True
    then show ?thesis using page_fault_adds [of s1 dev frame] by (simp add: s2_def) (simp add: s1_def)
  next
    case False
    then have "adds [KPrintf (exception_message n) []] s1 s2" using adds_emit [OF adds_nil, of _ s1] by (simp add: s2_def)
    then show ?thesis using False exception_message_plain [of n] by (auto simp: plain_report_simps plain_call_ok)
  qed
  then obtain km where km: "adds km s1 s2" "plain_report km" "if n = 14
      then KPrintf ''Faulting address: 0x%x\<newline>'' [KInt (fault_address dev (io s))] \<in> set km
      else km = [KPrintf (exception_message n) []]" by blast
  obtain s3 kp where p: "kernel_panic frame s2 = Some (hw HaltLoop s3)" "adds kp s2 s3" "list_all kcall_ok kp"
    "KPrintf ''- Error Code: '' [] \<in> set kp \<longleftrightarrow> interrupt_number frame \<in> {8, 10, 11, 12, 13, 14}"
    "KPrintf (render_nat 10 False (unat (interrupt_number frame))) [] \<in> set kp" "kp \<noteq> []"
    "last kp = KPrintf ''\<newline>System halted.\<newline>'' []"
    using kernel_panic_adds [of frame s2] by blast
  have "adds (([KClear] @ km) @ kp) s s3" by (rule adds_trans [OF adds_trans [OF a1 km(1)] p(2)])
  then have "hw HaltLoop s3 = s\<lparr>kout := kout s @ KClear # (km @ kp), io := io s @ [HaltLoop]\<rparr>"
    by (simp add: adds_def hw_def)
  moreover have "isr_common_stub dev frame s = Some (hw HaltLoop s3)"
    using p(1) unfolding isr_common_stub_def Let_def s2_def s1_def n_def .
  ultimately show ?thesis
    using km(2,3) p(3-7) by (intro exI [of _ "km @ kp"]) (auto simp: plain_report_def n_def split: if_splits)
qed


section \<open>Hardware interrupts\<close>

lemma unat8_less: "unat (b :: u8) < 256"
  using unsigned_less [of b, where 'a = nat] by simp

lemma irq_line_cases: "dec_string 4 (ucast (irq :: u8)) = Some (render_nat 10 False (unat irq))"
proof -
  have "unat (ucast irq :: u32) = unat irq" by (simp add: unsigned_ucast_eq take_bit_nat_eq_self order_less_trans [OF unat8_less])
  then show ?thesis using unat8_less [of irq] dec_string_eq [of "ucast irq" 3 4] by simp
qed

lemma irq_common_stub_eq:
  "irq_common_stub dev frame s =
     (let irq = ucast (interrupt_number frame - 32) :: u8;
          v = port_value dev (io s) 0x60;
          t = (if irq = 1 then keyboard_handler dev v (hw (In 0x60 v) s) else s)
      in Some (t\<lparr>io := io t @ (if 8 \<le> irq then [Out 0xA0 0x20, Out 0x20 0x20] else [Out 0x20 0x20])\<rparr>))"
proof -
  define irq where "irq = (ucast (interrupt_number frame - 32) :: u8)"
  have eoi: "pic_send_eoi irq t = t\<lparr>io := io t @ (if 8 \<le> irq then [Out 0xA0 0x20, Out 0x20 0x20] else [Out 0x20 0x20])\<rparr>"
    for t :: "'a interrupts_scheme" by (simp add: pic_send_eoi_def hw_def)
  show ?thesis
    unfolding irq_common_stub_def irq_def [symmetric] Let_def by (simp add: eoi irq_line_cases)
qed

text \<open>C10: the handler of hardware interrupts returns for every frame: it reads a scan code and hands
  it to the keyboard driver exactly for line 1, and acknowledges the interrupt to the first
  controller always and before that to the second one for the lines from 8 on.\<close>
theorem irq_handler_acknowledges:
  "irq_common_stub dev frame s =
     (let irq = ucast (interrupt_number frame - 32) :: u8;
          v = port_value dev (io s) 0x60;
          t = (if irq = 1 then keyboard_handler dev v (hw (In 0x60 v) s) else s)
      in Some (t\<lparr>io := io t @ (if 8 \<le> irq then [Out 0xA0 0x20, Out 0x20 0x20] else [Out 0x20 0x20])\<rparr>))"
  by (rule irq_common_stub_eq)

end
