(* ===== verification/Interrupt_Routing.thy ===== *)
theory Interrupt_Routing
  imports Interrupt_Props
begin

text \<open>
  How a hardware interrupt finds its stub: the interrupt gates of the descriptor table as the
  processor decodes them, and the two 8259A interrupt controllers as their manual specifies
  them, as a state that follows the writes to their ports.
\<close>

section \<open>Interrupt gates\<close>

definition gate_handler :: "idt_entry \<Rightarrow> u32" where
  "gate_handler e = push_bit 16 (ucast (offset_high e)) OR ucast (offset_low e)"

text \<open>A present 32-bit interrupt gate of privilege 0 into the kernel's code segment.\<close>

definition gate_ok :: "idt_entry \<Rightarrow> bool" where
  "gate_ok e \<longleftrightarrow> selector e = 8 \<and> zero e = 0 \<and> type_attr e = 0x8E"

definition gate_to :: "u32 \<Rightarrow> idt_entry \<Rightarrow> bool" where
  "gate_to handler e \<longleftrightarrow> gate_ok e \<and> gate_handler e = handler"

lemma halves_of_word32: "push_bit 16 (ucast (ucast (drop_bit 16 v AND 0xFFFF) :: u16)) OR ucast (ucast (v AND 0xFFFF) :: u16) = v"
  for v :: u32
proof (rule bit_word_eqI)
  fix n assume n: "n < LENGTH(32)"
  have m: "(0xFFFF :: u32) = mask 16" by (simp add: mask_eq_exp_minus_1)
  show "bit (push_bit 16 (ucast (ucast (drop_bit 16 v AND 0xFFFF) :: u16)) OR ucast (ucast (v AND 0xFFFF) :: u16) :: u32) n = bit v n"
    unfolding m using n by (auto simp: bit_simps)
qed

lemma set_gate_idt:
  "n < length (idt s) \<Longrightarrow> gate_to h (idt (idt_set_gate n h s) ! n)"
  "m \<noteq> n \<Longrightarrow> idt (idt_set_gate n h s) ! m = idt s ! m" "length (idt (idt_set_gate n h s)) = length (idt s)"
  by (simp_all add: idt_set_gate_def gate_to_def gate_ok_def gate_handler_def halves_of_word32)

text \<open>Only the table changes.\<close>

lemma set_gate_frame: "idt_set_gate n h s = s\<lparr>idt := idt (idt_set_gate n h s)\<rparr>"
  by (simp add: idt_set_gate_def)

definition set_gates :: "nat \<Rightarrow> (nat \<Rightarrow> u32) \<Rightarrow> nat \<Rightarrow> 'a interrupts_scheme \<Rightarrow> 'a interrupts_scheme" where
  "set_gates base h k = fold (\<lambda>n. idt_set_gate (base + n) (h n)) [0..<k]"

lemma set_gates_idt:
  assumes "base + k \<le> length (idt s)"
  shows "length (idt (set_gates base h k s)) = length (idt s)" "set_gates base h k s = s\<lparr>idt := idt (set_gates base h k s)\<rparr>"
    "n < k \<Longrightarrow> gate_to (h n) (idt (set_gates base h k s) ! (base + n))"
    "m < base \<or> base + k \<le> m \<Longrightarrow> idt (set_gates base h k s) ! m = idt s ! m"
proof -
  define P where "P i t \<longleftrightarrow> length (idt t) = length (idt s) \<and> t = s\<lparr>idt := idt t\<rparr> \<and>
    (\<forall>n<i. gate_to (h n) (idt t ! (base + n))) \<and> (\<forall>m. m < base \<or> base + i \<le> m \<longrightarrow> idt t ! m = idt s ! m)"
    for i t
  have "P k (set_gates base h k s)" unfolding set_gates_def
  proof (rule fold_upt_invariant [where P = P])
    show "P 0 s" by (simp add: P_def)
  next
    fix i t assume i: "i < k" and t: "P i t"
    have "idt_set_gate (base + i) (h i) t = s\<lparr>idt := idt (idt_set_gate (base + i) (h i) t)\<rparr>"
    proof -
      obtain y where "t = s\<lparr>idt := y\<rparr>" using t unfolding P_def by blast
      then show ?thesis by (simp add: idt_set_gate_def)
    qed
    then show "P (Suc i) (idt_set_gate (base + i) (h i) t)"
      using t i assms unfolding P_def by (auto simp: set_gate_idt less_Suc_eq)
  qed
  then show "length (idt (set_gates base h k s)) = length (idt s)" "set_gates base h k s = s\<lparr>idt := idt (set_gates base h k s)\<rparr>"
    "n < k \<Longrightarrow> gate_to (h n) (idt (set_gates base h k s) ! (base + n))"
    "m < base \<or> base + k \<le> m \<Longrightarrow> idt (set_gates base h k s) ! m = idt s ! m"
    by (simp_all only: P_def)
qed

section \<open>The 8259A interrupt controller\<close>

text \<open>
  \<open>icw\<close> is the initialisation command word the controller expects next at its data port, 0 when
  it is initialised and the data port is the interrupt mask; \<open>single\<close> and \<open>need4\<close> are the bits of
  the first command word that leave out the third and ask for the fourth.
\<close>

record pic =
  icw :: nat
  single :: bool
  need4 :: bool
  vector_base :: u8
  cascade :: u8
  mode :: u8
  line_mask :: u8

definition pic_command :: "u8 \<Rightarrow> pic \<Rightarrow> pic" where
  "pic_command v p =
     (if bit v 4 then p\<lparr>icw := 2, single := bit v 1, need4 := bit v 0, mode := 0, line_mask := 0\<rparr> else p)"

definition pic_data :: "u8 \<Rightarrow> pic \<Rightarrow> pic" where
  "pic_data v p =
     (if icw p = 2 then p\<lparr>vector_base := v AND 0xF8, icw := (if \<not> single p then 3 else if need4 p then 4 else 0)\<rparr>
      else if icw p = 3 then p\<lparr>cascade := v, icw := (if need4 p then 4 else 0)\<rparr>
      else if icw p = 4 then p\<lparr>mode := v, icw := 0\<rparr>
      else p\<lparr>line_mask := v\<rparr>)"

fun pic_event :: "u16 \<Rightarrow> hw_event \<Rightarrow> pic \<Rightarrow> pic" where
  "pic_event port (Out q v) p = (if q = port then pic_command v p else if q = port + 1 then pic_data v p else p)"
| "pic_event port _ p = p"

definition pic_after :: "u16 \<Rightarrow> pic \<Rightarrow> hw_event list \<Rightarrow> pic" where
  "pic_after port p h = fold (pic_event port) h p"

lemma pic_after_append [simp]: "pic_after port p (h @ [e]) = pic_event port e (pic_after port p h)"
  by (simp add: pic_after_def)

text \<open>The documented behaviour of the data port: an initialised controller reads out its mask.\<close>

definition pics_present :: "device \<Rightarrow> pic \<Rightarrow> pic \<Rightarrow> bool" where
  "pics_present dev p1 p2 \<longleftrightarrow>
     (\<forall>h. icw (pic_after 0x20 p1 h) = 0 \<longrightarrow> port_value dev h 0x21 = line_mask (pic_after 0x20 p1 h)) \<and>
     (\<forall>h. icw (pic_after 0xA0 p2 h) = 0 \<longrightarrow> port_value dev h 0xA1 = line_mask (pic_after 0xA0 p2 h))"

text \<open>The vector the processor is given for a line of the cascaded pair.\<close>

definition irq_vector :: "pic \<Rightarrow> pic \<Rightarrow> nat \<Rightarrow> nat" where
  "irq_vector p1 p2 line = (if line < 8 then unat (vector_base p1) + line else unat (vector_base p2) + (line - 8))"

section \<open>Installing both\<close>

lemma pic_remap_eq:
  "pic_remap dev s = (let m1 = port_value dev (io s) 0x21; m2 = port_value dev (io s @ [In 0x21 m1]) 0xA1 in
     s\<lparr>io := io s @ [In 0x21 m1, In 0xA1 m2, Out 0x20 0x11, Out 0xA0 0x11, Out 0x21 32, Out 0xA1 40,
       Out 0x21 4, Out 0xA1 2, Out 0x21 1, Out 0xA1 1, Out 0x21 m1, Out 0xA1 m2]\<rparr>)"
  by (simp add: pic_remap_def Let_def hw_def)

lemma irq_clear_mask_eq:
  "line < 8 \<Longrightarrow> irq_clear_mask dev line s = (let v = port_value dev (io s) 0x21 in
     s\<lparr>io := io s @ [In 0x21 v, Out 0x21 (v AND ucast (NOT (push_bit (unat line) (1 :: u32))))]\<rparr>)"
  by (simp add: irq_clear_mask_def irq_port_def Let_def hw_def)

lemma idt_install_eq: "idt_install img s = hw (Lidt (idt_address img) 2047) (set_gates 0 (isr_stub img) 32 s)"
  by (simp add: idt_install_def lidt_def set_gates_def)

lemma irq_install_eq: "irq_install dev img s =
    irq_clear_mask dev 1 (irq_clear_mask dev 0 (set_gates 32 (irq_stub img) 16 (pic_remap dev s)))"
  by (simp add: irq_install_def set_gates_def Let_def)

lemma clear_line_bits:
  "bit (v AND ucast (NOT (push_bit k (1 :: u32))) :: u8) n \<longleftrightarrow> bit v n \<and> n \<noteq> k"
  using bit_imp_le_length [of v n] by (auto simp: bit_simps)

text \<open>The two controllers after the remapping: initialised, with their old masks.\<close>

lemma pics_after_remap:
  assumes "pics_present dev p1 p2" "icw (pic_after 0x20 p1 (io s)) = 0" "icw (pic_after 0xA0 p2 (io s)) = 0"
  shows "pic_after 0x20 p1 (io (pic_remap dev s)) = \<lparr>icw = 0, single = False, need4 = True, vector_base = 32,
      cascade = 4, mode = 1, line_mask = line_mask (pic_after 0x20 p1 (io s))\<rparr>"
    "pic_after 0xA0 p2 (io (pic_remap dev s)) = \<lparr>icw = 0, single = False, need4 = True, vector_base = 40,
      cascade = 2, mode = 1, line_mask = line_mask (pic_after 0xA0 p2 (io s))\<rparr>"
proof -
  define m1 where "m1 = port_value dev (io s) 0x21"
  define m2 where "m2 = port_value dev (io s @ [In 0x21 m1]) 0xA1"
  have m1: "m1 = line_mask (pic_after 0x20 p1 (io s))" using assms(1,2) by (simp add: m1_def pics_present_def)
  have "icw (pic_after 0xA0 p2 (io s @ [In 0x21 m1])) = 0" using assms(3) by simp
  then have m2: "m2 = line_mask (pic_after 0xA0 p2 (io s))" using assms(1) unfolding m2_def pics_present_def by fastforce
  have bits: "bit (0x11 :: u8) 4" "\<not> bit (0x11 :: u8) 1" "bit (0x11 :: u8) 0" by simp_all
  have io: "io (pic_remap dev s) = io s @ [In 0x21 m1, In 0xA1 m2, Out 0x20 0x11, Out 0xA0 0x11, Out 0x21 32, Out 0xA1 40,
       Out 0x21 4, Out 0xA1 2, Out 0x21 1, Out 0xA1 1, Out 0x21 m1, Out 0xA1 m2]"
    by (simp add: pic_remap_eq Let_def m1_def m2_def)
  show "pic_after 0x20 p1 (io (pic_remap dev s)) = \<lparr>icw = 0, single = False, need4 = True, vector_base = 32,
      cascade = 4, mode = 1, line_mask = line_mask (pic_after 0x20 p1 (io s))\<rparr>"
    unfolding io by (simp add: pic_after_def pic_command_def pic_data_def bits m1)
  show "pic_after 0xA0 p2 (io (pic_remap dev s)) = \<lparr>icw = 0, single = False, need4 = True, vector_base = 40,
      cascade = 2, mode = 1, line_mask = line_mask (pic_after 0xA0 p2 (io s))\<rparr>"
    unfolding io by (simp add: pic_after_def pic_command_def pic_data_def bits m2)
qed

lemma pics_clear:
  assumes "pics_present dev p1 p2" "icw (pic_after 0x20 p1 (io s)) = 0" "line < 8"
  shows "pic_after 0x20 p1 (io (irq_clear_mask dev line s)) = (pic_after 0x20 p1 (io s))\<lparr>line_mask :=
      line_mask (pic_after 0x20 p1 (io s)) AND ucast (NOT (push_bit (unat line) (1 :: u32)))\<rparr>"
    "pic_after 0xA0 p2 (io (irq_clear_mask dev line s)) = pic_after 0xA0 p2 (io s)"
proof -
  have v: "port_value dev (io s) 0x21 = line_mask (pic_after 0x20 p1 (io s))" using assms(1,2) by (simp add: pics_present_def)
  then show "pic_after 0x20 p1 (io (irq_clear_mask dev line s)) = (pic_after 0x20 p1 (io s))\<lparr>line_mask :=
      line_mask (pic_after 0x20 p1 (io s)) AND ucast (NOT (push_bit (unat line) (1 :: u32)))\<rparr>"
    using assms(2,3) by (simp add: irq_clear_mask_eq Let_def pic_after_def pic_data_def)
  show "pic_after 0xA0 p2 (io (irq_clear_mask dev line s)) = pic_after 0xA0 p2 (io s)"
    using assms(3) by (simp add: irq_clear_mask_eq Let_def pic_after_def)
qed

text \<open>The accesses to the ports of the controllers.\<close>

definition pic_access :: "hw_event \<Rightarrow> bool" where
  "pic_access e \<longleftrightarrow> (case e of Out port v \<Rightarrow> port \<in> {0x20, 0x21, 0xA0, 0xA1} | In port v \<Rightarrow> True | _ \<Rightarrow> False)"

lemma idt_install_state:
  assumes "length (idt s) = 256"
  shows "idt_install img s = s\<lparr>idt := idt (idt_install img s), io := io s @ [Lidt (idt_address img) 2047]\<rparr>"
    "length (idt (idt_install img s)) = 256" "n < 32 \<Longrightarrow> gate_to (isr_stub img n) (idt (idt_install img s) ! n)"
proof -
  define t where "t = set_gates 0 (isr_stub img) 32 s"
  note G = set_gates_idt [where base = 0 and k = 32 and h = "isr_stub img" and s = s, folded t_def]
  have e: "idt_install img s = hw (Lidt (idt_address img) 2047) t" by (simp add: idt_install_eq t_def)
  have "t = s\<lparr>idt := idt t\<rparr>" using G(2) assms by simp
  then obtain y where y: "t = s\<lparr>idt := y\<rparr>" by blast
  show "idt_install img s = s\<lparr>idt := idt (idt_install img s), io := io s @ [Lidt (idt_address img) 2047]\<rparr>"
    unfolding e y by (simp add: hw_def)
  show "length (idt (idt_install img s)) = 256" using G(1) assms by (simp add: e hw_def)
  show "gate_to (isr_stub img n) (idt (idt_install img s) ! n)" if "n < 32" using G(3) [of n] that assms by (simp add: e hw_def)
qed

lemma irq_install_state:
  fixes s :: "'a interrupts_scheme" and img :: image
  assumes "pics_present dev p1 p2" "length (idt s) = 256"
    "icw (pic_after 0x20 p1 (io s)) = 0" "icw (pic_after 0xA0 p2 (io s)) = 0"
  defines "t \<equiv> irq_install dev img s"
  defines "q1 \<equiv> pic_after 0x20 p1 (io t)" and "q2 \<equiv> pic_after 0xA0 p2 (io t)"
  shows "t = s\<lparr>idt := idt t, io := io t\<rparr>" "length (idt t) = 256" "n < 32 \<Longrightarrow> idt t ! n = idt s ! n"
    "line < 16 \<Longrightarrow> gate_to (irq_stub img line) (idt t ! irq_vector q1 q2 line)"
    "line < 16 \<Longrightarrow> irq_vector q1 q2 line = 32 + line"
    "icw q1 = 0" "icw q2 = 0" "cascade q1 = 4" "cascade q2 = 2"
    "bit (line_mask q1) n \<longleftrightarrow> n \<noteq> 0 \<and> n \<noteq> 1 \<and> bit (line_mask (pic_after 0x20 p1 (io s))) n"
    "line_mask q2 = line_mask (pic_after 0xA0 p2 (io s))" "\<exists>es. io t = io s @ es \<and> list_all pic_access es"
proof -
  define s2 where "s2 = pic_remap dev s"
  define s3 where "s3 = set_gates 32 (irq_stub img) 16 s2"
  define s4 where "s4 = irq_clear_mask dev 0 s3"
  have t: "t = irq_clear_mask dev 1 s4" by (simp add: t_def irq_install_eq s4_def s3_def s2_def)
  have i2: "idt s2 = idt s" by (simp add: s2_def pic_remap_eq Let_def)
  note G2 = set_gates_idt [where base = 32 and k = 16 and h = "irq_stub img" and s = s2, folded s3_def]
  have it: "idt t = idt s3" by (simp add: t s4_def irq_clear_mask_eq Let_def)
  have len: "32 + 16 \<le> length (idt s2)" using assms(2) i2 by simp
  show "length (idt t) = 256" using G2(1) [OF len] assms(2) i2 by (simp add: it)
  show "idt t ! n = idt s ! n" if "n < 32" using G2(4) [OF len, of n] that by (simp add: it i2)
  obtain y where y: "s3 = s2\<lparr>idt := y\<rparr>" using G2(2) [OF len] by blast
  have y': "y = idt t" by (simp add: it y)
  have "s2 = s\<lparr>io := io s2\<rparr>" by (simp add: s2_def pic_remap_eq Let_def)
  then obtain z where z: "s2 = s\<lparr>io := z\<rparr>" by blast
  show "t = s\<lparr>idt := idt t, io := io t\<rparr>"
    by (simp add: t s4_def irq_clear_mask_eq Let_def y z)
  have irq: "gate_to (irq_stub img n) (idt t ! (32 + n))" if "n < 16" for n
    using G2(3) [OF len that] by (simp add: it)
  have io3: "io s3 = io s2" by (simp add: y)
  note R = pics_after_remap [OF assms(1,3,4), folded s2_def io3]
  have ic3: "icw (pic_after 0x20 p1 (io s3)) = 0" by (simp add: R)
  note C0 = pics_clear [OF assms(1) ic3, of 0, folded s4_def, simplified]
  have ic4: "icw (pic_after 0x20 p1 (io s4)) = 0" by (simp add: C0(1) R)
  note C1 = pics_clear [OF assms(1) ic4, of 1, folded t, simplified, folded q1_def q2_def]
  show v: "irq_vector q1 q2 line = 32 + line" if "line < 16" for line
    using that by (simp add: irq_vector_def C1 C0 R)
  show "gate_to (irq_stub img line) (idt t ! irq_vector q1 q2 line)" if "line < 16" using irq v that by simp
  show "bit (line_mask q1) n \<longleftrightarrow> n \<noteq> 0 \<and> n \<noteq> 1 \<and> bit (line_mask (pic_after 0x20 p1 (io s))) n"
    using clear_line_bits [of _ 0 n] clear_line_bits [of _ 1 n] by (simp add: C1 C0 R bit_and_iff) blast
  show "icw q1 = 0" "icw q2 = 0" "cascade q1 = 4" "cascade q2 = 2"
    "line_mask q2 = line_mask (pic_after 0xA0 p2 (io s))" by (simp_all add: C1 C0 R)
  show "\<exists>es. io t = io s @ es \<and> list_all pic_access es"
    by (simp add: t s4_def irq_clear_mask_eq Let_def io3 s2_def pic_remap_eq pic_access_def)
qed

text \<open>C8: after \<open>idt_install\<close> and \<open>irq_install\<close>, with two controllers as their manual specifies
  them, each exception vector has a gate to its stub, each of the 16 hardware lines is given
  a vector whose gate leads to the stub of that line, the controllers are cascaded over line 2
  of the first, and exactly lines 0 and 1 are unmasked, the other masks staying as they were.\<close>
theorem interrupts_routed:
  fixes s :: "'a interrupts_scheme" and img :: image
  assumes "pics_present dev p1 p2" "length (idt s) = 256"
    "icw (pic_after 0x20 p1 (io s)) = 0" "icw (pic_after 0xA0 p2 (io s)) = 0"
  defines "t \<equiv> irq_install dev img (idt_install img s)"
  defines "q1 \<equiv> pic_after 0x20 p1 (io t)" and "q2 \<equiv> pic_after 0xA0 p2 (io t)"
  shows "(\<forall>n<32. gate_to (isr_stub img n) (idt t ! n)) \<and>
    (\<forall>line<16. gate_to (irq_stub img line) (idt t ! irq_vector q1 q2 line)) \<and>
    icw q1 = 0 \<and> icw q2 = 0 \<and> cascade q1 = 2 ^ 2 \<and> cascade q2 = 2 \<and>
    (\<forall>n. bit (line_mask q1) n \<longleftrightarrow> n \<noteq> 0 \<and> n \<noteq> 1 \<and> bit (line_mask (pic_after 0x20 p1 (io s))) n) \<and>
    line_mask q2 = line_mask (pic_after 0xA0 p2 (io s)) \<and> Lidt (idt_address img) 2047 \<in> set (io t)"
proof -
  define s1 where "s1 = idt_install img s"
  note A = idt_install_state [where img = img, OF assms(2), folded s1_def]
  have io1: "io s1 = io s @ [Lidt (idt_address img) 2047]" using arg_cong [OF A(1), of io] by simp
  have p1: "pic_after 0x20 p1 (io s1) = pic_after 0x20 p1 (io s)" "pic_after 0xA0 p2 (io s1) = pic_after 0xA0 p2 (io s)"
    by (simp_all add: io1)
  have "icw (pic_after 0x20 p1 (io s1)) = 0" "icw (pic_after 0xA0 p2 (io s1)) = 0" using assms(3,4) by (simp_all add: p1)
  note B = irq_install_state [where img = img, OF assms(1) A(2) this, unfolded p1, folded t_def [folded s1_def], folded q1_def q2_def]
  have "Lidt (idt_address img) 2047 \<in> set (io t)" using B(12) by (auto simp: io1)
  then show ?thesis using A(3) B(3-11) by simp
qed

text \<open>A machine with the two controllers as the BIOS leaves them, and an image of the kernel.\<close>

definition bios_pic :: "u8 \<Rightarrow> u8 \<Rightarrow> pic" where
  "bios_pic base lines = \<lparr>icw = 0, single = False, need4 = True, vector_base = base, cascade = 0, mode = 1, line_mask = lines\<rparr>"

definition pc_device :: device where
  "pc_device = idle_device\<lparr>port_value := (\<lambda>h port.
     if port = 0x21 then line_mask (pic_after 0x20 (bios_pic 8 0xB8) h)
     else if port = 0xA1 then line_mask (pic_after 0xA0 (bios_pic 0x70 0x8F) h)
     else port_value idle_device h port)\<rparr>"

definition kernel_image :: image where
  "kernel_image = \<lparr>isr_stub = (\<lambda>n. 0x9000 + 0x10 * of_nat n), irq_stub = (\<lambda>n. 0x9800 + 0x10 * of_nat n), idt_address = 0x15000\<rparr>"

lemma pc_device_pics: "pics_present pc_device (bios_pic 8 0xB8) (bios_pic 0x70 0x8F)"
  by (simp add: pics_present_def pc_device_def)

theorem interrupts_routed_witness:
  "let t = irq_install pc_device kernel_image (idt_install kernel_image (kernel_power_on (\<lambda>_. 0))) in
     gate_to 0x9810 (idt t ! irq_vector (pic_after 0x20 (bios_pic 8 0xB8) (io t)) (pic_after 0xA0 (bios_pic 0x70 0x8F) (io t)) 1)"
proof -
  have "icw (pic_after 0x20 (bios_pic 8 0xB8) (io (kernel_power_on (\<lambda>_. 0)))) = 0"
    "icw (pic_after 0xA0 (bios_pic 0x70 0x8F) (io (kernel_power_on (\<lambda>_. 0)))) = 0"
    by (simp_all add: pic_after_def bios_pic_def)
  from interrupts_routed [OF pc_device_pics kernel_power_on_facts(7) this, of kernel_image]
  have R: "\<forall>line<16. gate_to (irq_stub kernel_image line) (idt (irq_install pc_device kernel_image (idt_install kernel_image (kernel_power_on (\<lambda>_. 0)))) !
      irq_vector (pic_after 0x20 (bios_pic 8 0xB8) (io (irq_install pc_device kernel_image (idt_install kernel_image (kernel_power_on (\<lambda>_. 0))))))
        (pic_after 0xA0 (bios_pic 0x70 0x8F) (io (irq_install pc_device kernel_image (idt_install kernel_image (kernel_power_on (\<lambda>_. 0)))))) line)"
    by blast
  have stub: "irq_stub kernel_image 1 = 0x9810" by (simp add: kernel_image_def)
  show ?thesis unfolding Let_def by (rule R [rule_format, of 1, unfolded stub]) simp
qed

end
