(* ===== verification/Display_Props.thy ===== *)
theory Display_Props
  imports Interrupt_Routing
begin

text \<open>
  The properties of the display driver: what clearing the graphics screen maps and paints, and
  where the painting leaves what was mapped.
\<close>

section \<open>Filling\<close>

lemma fill_cells:
  assumes st: "\<And>a m. unat a + c \<le> 4294967296 \<Longrightarrow> st a m = (\<lambda>x. if in_range a c x then f (unat x - unat a) else m x)"
    and c: "0 < c" and n: "unat p + c * unat n \<le> 4294967296"
  shows "for_lt n (\<lambda>i. st (p + of_nat c * i)) m =
    (\<lambda>x. if in_range p (c * unat n) x then f ((unat x - unat p) mod c) else m x)"
proof (rule for_lt_invariant [where P = "\<lambda>i m'. m' = (\<lambda>x. if in_range p (c * i) x then f ((unat x - unat p) mod c) else m x)"])
  show "m = (\<lambda>x. if in_range p (c * 0) x then f ((unat x - unat p) mod c) else m x)"
    by (auto simp: in_range_def fun_eq_iff)
next
  fix i m' assume i: "i < unat n" and m': "m' = (\<lambda>x. if in_range p (c * i) x then f ((unat x - unat p) mod c) else m x)"
  have "c * Suc i \<le> c * unat n" using i by (intro mult_le_mono2) simp
  then have le: "unat p + c * Suc i \<le> 4294967296" using n by linarith
  have "c * i < 4294967296" using le c by simp
  then have "unat (of_nat c * of_nat i :: u32) = c * i" by (simp add: unat_of_nat_small flip: of_nat_mult)
  then have u: "unat (p + of_nat c * of_nat i) = unat p + c * i" using le c by (subst unat_add_small) simp_all
  have "st (p + of_nat c * of_nat i) m' = (\<lambda>x. if in_range (p + of_nat c * of_nat i) c x
      then f (unat x - unat (p + of_nat c * of_nat i)) else m' x)"
    by (rule st) (use u le in simp)
  also have "\<dots> = (\<lambda>x. if in_range p (c * Suc i) x then f ((unat x - unat p) mod c) else m x)"
  proof
    fix x
    show "(if in_range (p + of_nat c * of_nat i) c x then f (unat x - unat (p + of_nat c * of_nat i)) else m' x) =
        (if in_range p (c * Suc i) x then f ((unat x - unat p) mod c) else m x)"
    proof (cases "in_range (p + of_nat c * of_nat i) c x")
      case True
      then obtain d where d: "unat x = unat p + c * i + d" "d < c"
        unfolding in_range_def u by (metis le_Suc_ex add_less_cancel_left)
      then have "(unat x - unat p) mod c = d" by simp
      moreover have "unat x - unat (p + of_nat c * of_nat i) = d" using d by (simp add: u)
      moreover have "in_range p (c * Suc i) x" using d by (simp add: in_range_def)
      ultimately show ?thesis using True by simp
    next
      case False
      then have "in_range p (c * Suc i) x \<longleftrightarrow> in_range p (c * i) x" unfolding in_range_def u by auto
      then show ?thesis using False by (simp add: m')
    qed
  qed
  finally show "st (p + of_nat c * of_nat i) m' = (\<lambda>x. if in_range p (c * Suc i) x then f ((unat x - unat p) mod c) else m x)" .
qed

lemma store32_bytes:
  assumes "unat a + 4 \<le> 4294967296"
  shows "store32 a v m = (\<lambda>x. if in_range a 4 x then ucast (drop_bit (8 * (unat x - unat a)) v) else m x)"
proof
  fix x
  have u: "unat (a + 1) = unat a + 1" "unat (a + 2) = unat a + 2" "unat (a + 3) = unat a + 3"
    using assms by (simp_all add: unat_add_small)
  then have "in_range a 4 x \<longleftrightarrow> x = a \<or> x = a + 1 \<or> x = a + 2 \<or> x = a + 3"
    unfolding in_range_def word_unat_eq_iff by auto
  then show "store32 a v m x = (if in_range a 4 x then ucast (drop_bit (8 * (unat x - unat a)) v) else m x)"
    using u by (auto simp: store32_def)
qed

lemma store16_white:
  assumes "unat a + 2 \<le> 4294967296"
  shows "store16 a 0xFFFF m = (\<lambda>x. if in_range a 2 x then 0xFF else m x)"
proof
  fix x
  have "unat (a + 1) = unat a + 1" using assms by (simp add: unat_add_small)
  then have "in_range a 2 x \<longleftrightarrow> x = a \<or> x = a + 1" unfolding in_range_def word_unat_eq_iff by auto
  then show "store16 a 0xFFFF m x = (if in_range a 2 x then 0xFF else m x)" by (auto simp: store16_def)
qed

lemma fill_white32:
  assumes "unat p + 4 * unat n \<le> 4294967296"
  shows "for_lt n (\<lambda>i. store32 (p + 4 * i) 0x00FFFFFF) m =
    (\<lambda>x. if in_range p (4 * unat n) x then (if (unat x - unat p) mod 4 = 3 then 0 else 0xFF) else m x)"
proof -
  define f where "f d = (ucast (drop_bit (8 * d) (0x00FFFFFF :: u32)) :: u8)" for d :: nat
  have f: "f ((unat x - unat p) mod 4) = (if (unat x - unat p) mod 4 = 3 then 0 else 0xFF)" for x :: u32
  proof -
    define d where "d = (unat x - unat p) mod 4"
    have "d < 4" by (simp add: d_def)
    then have "d = 0 \<or> d = 1 \<or> d = 2 \<or> d = 3" by linarith
    then show ?thesis unfolding d_def [symmetric] by (auto simp: f_def)
  qed
  have st: "store32 a 0x00FFFFFF m = (\<lambda>x. if in_range a 4 x then f (unat x - unat a) else m x)"
    if "unat a + 4 \<le> 4294967296" for a m
    unfolding f_def by (rule store32_bytes [OF that])
  have "for_lt n (\<lambda>i. store32 (p + of_nat 4 * i) 0x00FFFFFF) m =
      (\<lambda>x. if in_range p (4 * unat n) x then f ((unat x - unat p) mod 4) else m x)"
    by (rule fill_cells [OF st]) (use assms in simp_all)
  then show ?thesis by (simp add: f cong: if_cong)
qed

lemma fill_white16:
  assumes "unat p + 2 * unat n \<le> 4294967296"
  shows "for_lt n (\<lambda>i. store16 (p + 2 * i) 0xFFFF) m = (\<lambda>x. if in_range p (2 * unat n) x then 0xFF else m x)"
proof -
  have "for_lt n (\<lambda>i. store16 (p + of_nat 2 * i) 0xFFFF) m = (\<lambda>x. if in_range p (2 * unat n) x then (\<lambda>_. 0xFF) ((unat x - unat p) mod 2) else m x)"
    by (rule fill_cells) (use assms in \<open>simp_all add: store16_white\<close>)
  then show ?thesis by simp
qed

section \<open>Mapping the frame buffer\<close>

lemma push_page_no: "page_aligned a \<Longrightarrow> push_bit 12 (page_no a) = a"
proof -
  assume "page_aligned a"
  then have "take_bit 12 a = 0" by (simp add: aligned_def)
  moreover have "push_bit 12 (drop_bit 12 a) + take_bit 12 a = a" by (rule bits_ident)
  ultimately show "push_bit 12 (page_no a) = a" by (simp add: page_no_def)
qed

text \<open>The entry of a mapped page: present, writable, not cached, of the page itself.\<close>

definition fb_pte :: "u32 \<Rightarrow> u64" where
  "fb_pte v = ucast (push_bit 12 v) OR 0x13"

lemma fb_page_mapped: "page_aligned a \<Longrightarrow> ucast a OR ucast (1 OR 2 OR 0x10 :: u32) = fb_pte (page_no a)"
  by (simp add: fb_pte_def push_page_no)

lemma fb_leaf: "present (fb_pte v)" "entry_base (fb_pte (page_no va)) OR ucast (take_bit 12 va) = ucast va"
proof -
  have "bit (fb_pte v) 0" by (simp add: fb_pte_def bit_simps)
  then show "present (fb_pte v)" by (simp add: present_iff bit_0)
  have "entry_base (fb_pte (page_no va)) = ucast (push_bit 12 (page_no va))"
    using entry_base_of [where e = "0x13", OF page_aligned_push] by (simp add: fb_pte_def)
  moreover have "ucast (push_bit 12 (page_no va)) OR ucast (take_bit 12 va) = (ucast va :: u64)"
    by (rule bit_word_eqI) (auto simp: page_no_def bit_simps dest: bit_imp_le_length)
  ultimately show "entry_base (fb_pte (page_no va)) OR ucast (take_bit 12 va) = ucast va" by simp
qed

lemma if_or: "(if B then x else if A then x else y) = (if A \<or> B then x else y)"
  by simp

lemma map_framebuffer_ok:
  assumes "tables_inv s U (n + k)" "walk_inv s" "page_aligned lfb"
  shows "\<exists>s' U'. map_framebuffer lfb k i s = (True, s') \<and> tables_inv s' U' n \<and> U \<subseteq> U' \<and> walk_inv s' \<and> kout s' = kout s \<and>
    (\<forall>v. drop_bit 9 v \<in> slots \<longrightarrow>
      pte s' v = (if \<exists>j<k. v = page_no (lfb + (i + of_nat j) * 4096) then fb_pte v else pte s v)) \<and>
    (\<forall>q\<in>U. q \<notin> tables s \<longrightarrow> same_page q (mem s) (mem s')) \<and> pdpt s' = pdpt s \<and>
    io s' = io s @ map (\<lambda>j. Invlpg (lfb + (i + of_nat j) * 4096)) [0..<k]"
  using assms(1,2)
proof (induction k arbitrary: i s U)
  case 0
  then show ?case by auto
next
  case (Suc k)
  define a where "a = lfb + i * 4096"
  have al: "page_aligned a" unfolding a_def mult.commute [of i] using assms(3) by (intro aligned_add aligned_mult) (simp_all add: aligned_numeral)
  obtain r s1 where c: "map_page a (ucast a) (1 OR 2 OR 0x10) s = (r, s1)" by fastforce
  have inv: "tables_inv s U (Suc (n + k))" using Suc.prems(1) by simp
  note M = map_page_step [OF inv c]
  have f: "(\<lambda>v e. if v = page_no a then ucast a OR ucast (1 OR 2 OR 0x10 :: u32) else e) = (\<lambda>v e. if v = page_no a then fb_pte v else e)"
    unfolding fb_page_mapped [OF al] by (simp add: fun_eq_iff)
  obtain U1 where S: "table_step (drop_bit 21 a) (\<lambda>v e. if v = page_no a then fb_pte v else e) s U (n + k) s1 U1"
    using M(3) unfolding f by blast
  have inv1: "tables_inv s1 U1 (n + k)"
    using S inv_weaken [of s1 U1 "Suc (n + k)" "n + k"] by (auto simp: table_step_def split: if_splits)
  have w1: "walk_inv s1" by (rule table_step_walk [OF Suc.prems(2) inv S])
  obtain s2 U2 where I: "map_framebuffer lfb k (i + 1) s1 = (True, s2)" "tables_inv s2 U2 n" "U1 \<subseteq> U2" "walk_inv s2" "kout s2 = kout s1"
    "\<forall>v. drop_bit 9 v \<in> slots \<longrightarrow>
      pte s2 v = (if \<exists>j<k. v = page_no (lfb + (i + 1 + of_nat j) * 4096) then fb_pte v else pte s1 v)"
    "\<forall>q\<in>U1. q \<notin> tables s1 \<longrightarrow> same_page q (mem s1) (mem s2)" "pdpt s2 = pdpt s1"
    "io s2 = io s1 @ map (\<lambda>j. Invlpg (lfb + (i + 1 + of_nat j) * 4096)) [0..<k]"
    using Suc.IH [OF inv1 w1, of "i + 1"] by blast
  have "map_framebuffer lfb (Suc k) i s = (True, s2)" using c M(1) I(1) by (simp add: a_def)
  moreover have "pte s2 v = (if \<exists>j<Suc k. v = page_no (lfb + (i + of_nat j) * 4096) then fb_pte v else pte s v)"
    if v: "drop_bit 9 v \<in> slots" for v
  proof -
    have e: "(\<exists>j<Suc k. v = page_no (lfb + (i + of_nat j) * 4096)) \<longleftrightarrow>
        v = page_no a \<or> (\<exists>j<k. v = page_no (lfb + (i + 1 + of_nat j) * 4096))"
      unfolding Ex_less_Suc2 by (simp add: a_def add.assoc)
    have p1: "pte s1 v = (if v = page_no a then fb_pte v else pte s v)" using S v unfolding table_step_def by blast
    have p2: "pte s2 v = (if \<exists>j<k. v = page_no (lfb + (i + 1 + of_nat j) * 4096) then fb_pte v else pte s1 v)"
      using I(6) v by blast
    show ?thesis unfolding e p2 p1 by (rule if_or)
  qed
  moreover have "same_page q (mem s) (mem s2)" if "q \<in> U" "q \<notin> tables s" for q
  proof -
    have "same_page q (mem s) (mem s1)" "q \<notin> tables s1" "q \<in> U1" using S that by (auto simp: table_step_def)
    then show ?thesis using I(7) by (blast intro: same_page_trans)
  qed
  moreover have "kout s1 = kout s" "pdpt s1 = pdpt s" "U \<subseteq> U1" using S by (simp_all add: table_step_def)
  moreover have "io s2 = io s @ map (\<lambda>j. Invlpg (lfb + (i + of_nat j) * 4096)) [0..<Suc k]"
    unfolding I(9) M(2) upt_conv_Cons [OF zero_less_Suc] map_Suc_upt [symmetric] by (simp add: a_def add.assoc)
  ultimately show ?case using I by (intro exI [of _ s2] exI [of _ U2]) auto
qed

lemma fb_pages:
  assumes "page_aligned lfb" "unat lfb + 4096 * k \<le> 4294967296"
  shows "(\<exists>j<k. page_no x = page_no (lfb + (0 + of_nat j) * 4096)) \<longleftrightarrow> in_range lfb (4096 * k) x"
proof -
  have pn: "unat (page_no (lfb + (0 + of_nat j) * 4096)) = unat (page_no lfb) + j" if "j < k" for j
  proof -
    have "of_nat j * 4096 = (of_nat (4096 * j) :: u32)" by simp
    moreover have "4096 * j + 4096 \<le> 4096 * k" using that by simp
    ultimately have "unat (lfb + (0 + of_nat j) * 4096) = unat lfb + 4096 * j"
      using assms(2) by (simp add: unat_add_small unat_of_nat_small del: of_nat_mult)
    then show ?thesis by (simp add: unat_page_no)
  qed
  have "(\<exists>j<k. page_no x = page_no (lfb + (0 + of_nat j) * 4096)) \<longleftrightarrow> (\<exists>j<k. unat (page_no x) = unat (page_no lfb) + j)"
    using pn by (auto simp: word_unat_eq_iff)
  also have "\<dots> \<longleftrightarrow> unat (page_no lfb) \<le> unat (page_no x) \<and> unat (page_no x) < unat (page_no lfb) + k"
    by (auto simp: le_iff_add)
  also have "\<dots> \<longleftrightarrow> in_range lfb (4096 * k) x" using in_range_pages [OF assms] by simp
  finally show ?thesis .
qed

lemma framebuffer_walk:
  assumes "tables_inv s U (n + k)" "walk_inv s" "page_aligned lfb" "unat lfb + 4096 * k \<le> 4294967296"
  shows "\<exists>t U'. map_framebuffer lfb k 0 s = (True, t) \<and> tables_inv t U' n \<and> walk_inv t \<and> kout t = kout s \<and>
    (\<forall>x. pae_walk (mem t) (pdpt t) x = (if in_range lfb (4096 * k) x then Some (ucast x) else pae_walk (mem s) (pdpt s) x))"
proof -
  obtain t U' where t: "map_framebuffer lfb k 0 s = (True, t)" "tables_inv t U' n" "walk_inv t" "kout t = kout s"
    "\<forall>v. drop_bit 9 v \<in> slots \<longrightarrow>
      pte t v = (if \<exists>j<k. v = page_no (lfb + (0 + of_nat j) * 4096) then fb_pte v else pte s v)"
    using map_framebuffer_ok [OF assms(1,2,3), of 0] by blast
  have "pae_walk (mem t) (pdpt t) x = (if in_range lfb (4096 * k) x then Some (ucast x) else pae_walk (mem s) (pdpt s) x)" for x
  proof -
    have "pte t (page_no x) = (if \<exists>j<k. page_no x = page_no (lfb + (0 + of_nat j) * 4096) then fb_pte (page_no x) else pte s (page_no x))"
      using t(5) page_no_slots by blast
    then have "pte t (page_no x) = (if in_range lfb (4096 * k) x then fb_pte (page_no x) else pte s (page_no x))"
      unfolding fb_pages [OF assms(3,4)] .
    then show ?thesis unfolding pae_walk_leaf [OF t(2,3)] pae_walk_leaf [OF assms(1,2)]
      by (simp add: fb_leaf)
  qed
  then show ?thesis using t by blast
qed

section \<open>Clearing the graphics screen\<close>

text \<open>The bytes of a white pixel, 2 or 4 of them.\<close>

definition white_byte :: "u32 \<Rightarrow> nat \<Rightarrow> u8" where
  "white_byte bpp d = (if bpp \<noteq> 16 \<and> d mod 4 = 3 then 0 else 0xFF)"

definition pixel_bytes :: "u32 \<Rightarrow> nat" where
  "pixel_bytes bpp = (if bpp = 16 then 2 else 4)"

lemma clear_screen_eq:
  assumes "lfb \<noteq> 0" "w \<noteq> 0" "h \<noteq> 0" "bpp \<in> {16, 24, 32}"
    "unat lfb + 4 * (unat w * unat h) \<le> 4294967296" "page_aligned lfb"
    "lfb_address dev (io s) = lfb" "mode_width dev (io s) = w" "mode_height dev (io s) = h" "mode_bpp dev (io s) = bpp"
    and k: "k = (unat w * unat h * (unat bpp div 8) + 4095) div 4096"
    and t: "map_framebuffer lfb k 0 s = (True, t)"
  shows "vga_clear_screen_now dev s = t\<lparr>mem := (\<lambda>x. if in_range lfb (unat w * unat h * pixel_bytes bpp) x
      then white_byte bpp (unat x - unat lfb) else mem t x)\<rparr>"
    "unat lfb + 4096 * k \<le> 4294967296"
proof -
  have lfb: "4096 \<le> unat lfb"
  proof -
    obtain q where "unat lfb = 4096 * q" using assms(6) by (auto simp: aligned_dvd)
    then show ?thesis using assms(1) by (cases q) (auto simp: unat_eq_zero)
  qed
  have wh: "unat (w * h) = unat w * unat h" using assms(5) lfb by (intro unat_mult_small) linarith
  have bb: "unat ((bpp + 7) div 8) = unat bpp div 8" "unat bpp div 8 \<le> 4" "unat bpp div 8 \<in> {2, 3, 4}"
    using assms(4) by (auto simp: unat_div)
  have le: "unat w * unat h * (unat bpp div 8) \<le> 4 * (unat w * unat h)"
    using mult_le_mono2 [OF bb(2), of "unat w * unat h"] by (simp only: mult.commute)
  have fb: "unat (w * h * ((bpp + 7) div 8)) = unat w * unat h * (unat bpp div 8)"
  proof -
    have "unat (w * h) * unat ((bpp + 7) div 8) < 4294967296" unfolding wh bb(1) using le assms(5) lfb by linarith
    then show ?thesis by (simp only: unat_mult_small wh bb(1))
  qed
  have "unat (w * h * ((bpp + 7) div 8) + 4095) = unat w * unat h * (unat bpp div 8) + 4095"
  proof -
    have "unat w * unat h * (unat bpp div 8) + 4095 < 4294967296" using le assms(5) lfb by linarith
    then show ?thesis by (subst unat_add_small) (simp_all add: fb)
  qed
  moreover have "y + 4096 - 1 = y + 4095" for y :: u32 by simp
  ultimately have pages: "unat ((w * h * ((bpp + 7) div 8) + 4096 - 1) div 4096) = k"
    unfolding k by (simp only: unat_div) simp
  have painted: "unat lfb + 4 * unat (w * h) \<le> 4294967296" "unat lfb + 2 * unat (w * h) \<le> 4294967296"
    using assms(5) by (simp_all add: wh)
  have e: "vga_clear_screen_now dev s = (if bpp = 16 then
        t\<lparr>mem := for_lt (w * h) (\<lambda>i. store16 (lfb + 2 * i) 0xFFFF) (mem t)\<rparr>
      else if bpp = 24 \<or> bpp = 32 then
        t\<lparr>mem := for_lt (w * h) (\<lambda>i. store32 (lfb + 4 * i) 0x00FFFFFF) (mem t)\<rparr>
      else t)"
    unfolding vga_clear_screen_now_def Let_def assms(7-10)
    by (simp only: assms(1-3) simp_thms if_False if_True prod.case pages t)
  show "vga_clear_screen_now dev s = t\<lparr>mem := (\<lambda>x. if in_range lfb (unat w * unat h * pixel_bytes bpp) x
      then white_byte bpp (unat x - unat lfb) else mem t x)\<rparr>"
    unfolding e fill_white32 [OF painted(1)] fill_white16 [OF painted(2)] wh using assms(4)
    by (auto simp: white_byte_def pixel_bytes_def mult.commute cong: if_cong)
  obtain q where q: "unat lfb = 4096 * q" using assms(6) by (auto simp: aligned_dvd)
  have "4096 * k \<le> unat w * unat h * (unat bpp div 8) + 4095" by (simp add: k)
  then have "q + k < 1048577" using le assms(5) q by linarith
  then show "unat lfb + 4096 * k \<le> 4294967296" using q by linarith
qed

lemma clear_screen_state:
  fixes s :: "'a paging_scheme" and dev :: device
  defines "lfb \<equiv> lfb_address dev (io s)" and "bpp \<equiv> mode_bpp dev (io s)"
    and "pixels \<equiv> unat (mode_width dev (io s)) * unat (mode_height dev (io s))"
  defines "k \<equiv> (pixels * (unat bpp div 8) + 4095) div 4096"
  defines "t \<equiv> snd (map_framebuffer lfb k 0 s)"
  assumes "tables_inv s U (n + k)" "walk_inv s" "page_aligned lfb" "lfb \<noteq> 0" "0 < pixels" "bpp \<in> {16, 24, 32}"
    "unat lfb + 4 * pixels \<le> 4294967296"
  shows "vga_clear_screen_now dev s =
      t\<lparr>mem := (\<lambda>x. if in_range lfb (pixels * pixel_bytes bpp) x then white_byte bpp (unat x - unat lfb) else mem t x)\<rparr> \<and>
    (\<exists>U'. tables_inv t U' n) \<and> walk_inv t \<and> kout t = kout s \<and>
    (\<forall>x. pae_walk (mem t) (pdpt t) x = (if in_range lfb (4096 * k) x then Some (ucast x) else pae_walk (mem s) (pdpt s) x))"
proof -
  have nz: "mode_width dev (io s) \<noteq> 0" "mode_height dev (io s) \<noteq> 0"
    using assms(10) by (auto simp: pixels_def)
  have kd: "k = (unat (mode_width dev (io s)) * unat (mode_height dev (io s)) * (unat bpp div 8) + 4095) div 4096"
    by (simp add: k_def pixels_def)
  have len: "unat lfb + 4 * (unat (mode_width dev (io s)) * unat (mode_height dev (io s))) \<le> 4294967296"
    using assms(12) by (simp add: pixels_def)
  have lb: "lfb_address dev (io s) = lfb" "mode_bpp dev (io s) = bpp" by (simp_all add: lfb_def bpp_def)
  have "unat lfb + 4096 * k \<le> 4294967296"
  proof -
    obtain t' where "map_framebuffer lfb k 0 s = (True, t')"
      using map_framebuffer_ok [OF assms(6,7,8)] by blast
    from clear_screen_eq(2) [OF assms(9) nz assms(11) len assms(8) lb(1) refl refl lb(2) kd this]
    show ?thesis .
  qed
  from framebuffer_walk [OF assms(6,7,8) this] obtain t' U' where t': "map_framebuffer lfb k 0 s = (True, t')"
    "tables_inv t' U' n" "walk_inv t'" "kout t' = kout s"
    "\<forall>x. pae_walk (mem t') (pdpt t') x = (if in_range lfb (4096 * k) x then Some (ucast x) else pae_walk (mem s) (pdpt s) x)"
    by blast
  have e: "t' = t" using t'(1) by (simp add: t_def)
  show ?thesis
    using clear_screen_eq(1) [OF assms(9) nz assms(11) len assms(8) lb(1) refl refl lb(2) kd t'(1)]
      t'(2-5) unfolding e pixels_def by blast
qed


text \<open>A display of 1024 by 768 pixels behind a frame buffer at the address the driver falls back to.\<close>

definition vesa_device :: "u32 \<Rightarrow> device" where
  "vesa_device bpp = pc_device\<lparr>vesa_set_mode := (\<lambda>_. 0), vesa_set_text := (\<lambda>_. 0), lfb_address := (\<lambda>_. 0xE0000000),
     mode_width := (\<lambda>_. 1024), mode_height := (\<lambda>_. 768), mode_bpp := (\<lambda>_. bpp)\<rparr>"


text \<open>C32: at a depth of 24 bits the painting runs past the mapped frame buffer: a mode of 1024 by 768
  pixels needs 576 pages, which are mapped, but every pixel is written as four bytes, so the
  last quarter of the writes goes to addresses that had no translation and still have none.\<close>
theorem vga_clear_screen_24_overruns:
  assumes "tables_inv s U (n + 576)" "walk_inv s" "page_aligned lfb" "lfb \<noteq> 0" "unat lfb + 0x300000 \<le> 4294967296"
    "lfb_address dev (io s) = lfb" "mode_width dev (io s) = 1024" "mode_height dev (io s) = 768" "mode_bpp dev (io s) = 24"
    "\<And>x. in_range lfb 0x300000 x \<Longrightarrow> pae_walk (mem s) (pdpt s) x = None"
    "unat lfb + 0x240000 \<le> unat x" "unat x < unat lfb + 0x300000"
  shows "\<exists>t. map_framebuffer lfb 576 0 s = (True, t) \<and> pae_walk (mem t) (pdpt t) x = None \<and>
    (\<exists>m. vga_clear_screen_now dev s = t\<lparr>mem := m\<rparr> \<and> m x = white_byte 24 (unat x - unat lfb))"
proof -
  have k: "576 = (unat (1024 :: u32) * unat (768 :: u32) * (unat (24 :: u32) div 8) + 4095) div 4096" by simp
  obtain t where t: "map_framebuffer lfb 576 0 s = (True, t)"
    "\<forall>x. pae_walk (mem t) (pdpt t) x = (if in_range lfb (4096 * 576) x then Some (ucast x) else pae_walk (mem s) (pdpt s) x)"
    using framebuffer_walk [OF assms(1-3)] assms(5) by auto
  have r: "\<not> in_range lfb (4096 * 576) x" "in_range lfb 0x300000 x" "in_range lfb 3145728 x"
    using assms(11,12) by (simp_all add: in_range_def)
  have len: "unat lfb + 4 * (unat (1024 :: u32) * unat (768 :: u32)) \<le> 4294967296" using assms(5) by simp
  have ne: "(1024 :: u32) \<noteq> 0" "(768 :: u32) \<noteq> 0" "(24 :: u32) \<in> {16, 24, 32}" by simp_all
  note E = clear_screen_eq(1) [OF assms(4) ne len assms(3) assms(6,7,8,9) k t(1)]
  have p: "unat (1024 :: u32) * unat (768 :: u32) * pixel_bytes 24 = 3145728" by (simp add: pixel_bytes_def)
  define m where "m = (\<lambda>x. if in_range lfb 3145728 x then white_byte 24 (unat x - unat lfb) else mem t x)"
  have "m x = white_byte 24 (unat x - unat lfb)" using r(3) by (simp add: m_def)
  moreover have "vga_clear_screen_now dev s = t\<lparr>mem := m\<rparr>" unfolding E p m_def ..
  moreover have "pae_walk (mem t) (pdpt t) x = None" using t(2) r(1) assms(10) [OF r(2)] by simp
  ultimately show ?thesis using t(1) by blast
qed

theorem vga_clear_screen_24_overruns_witness:
  "\<exists>t. map_framebuffer 0xE0000000 576 0 paging_booted = (True, t) \<and> pae_walk (mem t) (pdpt t) 0xE0280000 = None \<and>
    mem (vga_clear_screen_now (vesa_device 24) paging_booted) 0xE0280000 = 0xFF"
proof -
  obtain U where inv: "tables_inv paging_booted U (1043424 + 576)" using booted_tables(1) by auto
  have none: "pae_walk (mem paging_booted) (pdpt paging_booted) x = None" if "in_range 0xE0000000 0x300000 x" for x
  proof -
    have "0xE0000000 \<le> unat x" using that by (simp add: in_range_def)
    then have "\<not> unat (page_no x) < 8192" unfolding unat_page_no by linarith
    then have "pte paging_booted (page_no x) = 0"
      using mapped_state(4) [OF fresh_power_on(1) [of "\<lambda>_. 0"], folded paging_booted_def] slot_of_va [of x] by simp
    then show ?thesis unfolding pae_walk_leaf [OF inv booted_tables(2)] by (simp add: present_def)
  qed
  have d: "lfb_address (vesa_device 24) h = 0xE0000000" "mode_bpp (vesa_device 24) h = 24"
    "mode_width (vesa_device 24) h = 1024" "mode_height (vesa_device 24) h = 768" for h
    by (simp_all add: vesa_device_def)
  have al: "page_aligned 0xE0000000" by (simp add: aligned_def)
  obtain t m where "map_framebuffer 0xE0000000 576 0 paging_booted = (True, t)" "pae_walk (mem t) (pdpt t) 0xE0280000 = None"
    "vga_clear_screen_now (vesa_device 24) paging_booted = t\<lparr>mem := m\<rparr>"
    "m 0xE0280000 = white_byte 24 (unat (0xE0280000 :: u32) - unat (0xE0000000 :: u32))"
    using vga_clear_screen_24_overruns [OF inv booted_tables(2) al _ _ d(1,3,4,2) none, of "0xE0280000"] by auto
  then show ?thesis by (simp add: white_byte_def)
qed

end
