(* ===== verification/Paging_Life.thy ===== *)
theory Paging_Life
  imports Paging_Props
begin

text \<open>
  The page tables over the life of the kernel. The invariant \<open>paging_ok\<close> does not count calls:
  there are always as many pages to be had as page tables are still missing, so \<open>map_page\<close>
  never fails however often it is called, and every table there will ever be lies below 32 MB,
  where the identity mapping reaches it.
\<close>

section \<open>The invariant\<close>

definition installed :: "'a paging_scheme \<Rightarrow> nat" where
  "installed s = card {c \<in> slots. present (pde s c)}"

definition missing :: "'a paging_scheme \<Rightarrow> nat" where
  "missing s = card {c \<in> slots. \<not> present (pde s c)}"

definition paging_ok :: "'a paging_scheme \<Rightarrow> bool" where
  "paging_ok s \<longleftrightarrow> (\<exists>U n. tables_inv s U (Suc n) \<and> missing s \<le> n) \<and> walk_inv s \<and>
     unat (next_free_page s) \<le> 0x1420000 + 4096 * installed s"

text \<open>The first 32 MB are mapped to themselves.\<close>

definition identity_kept :: "'a paging_scheme \<Rightarrow> bool" where
  "identity_kept s \<longleftrightarrow> (\<forall>v. unat v < 8192 \<longrightarrow> pte s v = identity_pte v)"

lemma finite_slots [simp]: "finite slots"
  by simp

lemma card_slots: "card slots \<le> 2048"
proof -
  have "slots \<subseteq> of_nat ` {..<2048}"
  proof
    fix c assume "c \<in> slots"
    then have "c = of_nat (unat c)" "unat c < 2048" by (simp_all add: slots_def)
    then show "c \<in> of_nat ` {..<2048}" by blast
  qed
  then have "card slots \<le> card (of_nat ` {..<2048} :: u32 set)" by (intro card_mono) simp_all
  also have "\<dots> \<le> 2048" using card_image_le [of "{..<2048}" "of_nat :: nat \<Rightarrow> u32"] by simp
  finally show ?thesis .
qed

lemma installed_le: "installed s \<le> 2048"
proof -
  have "installed s \<le> card slots" unfolding installed_def by (intro card_mono) auto
  then show ?thesis using card_slots by linarith
qed

lemma missing_le: "missing s \<le> 2048"
proof -
  have "missing s \<le> card slots" unfolding missing_def by (intro card_mono) auto
  then show ?thesis using card_slots by linarith
qed

text \<open>Every page the paging code has taken or will take lies below 32 MB.\<close>

lemma paging_ok_low: "paging_ok s \<Longrightarrow> unat (next_free_page s) \<le> 0x1C20000"
  using installed_le [of s] by (auto simp: paging_ok_def)

lemma step_counts:
  assumes "table_step c f s U n s' U'" "c \<in> slots"
  shows "installed s' = (if present (pde s c) then installed s else Suc (installed s))"
    "missing s = (if present (pde s c) then missing s' else Suc (missing s'))"
proof -
  have p: "\<forall>d\<in>slots. present (pde s' d) \<longleftrightarrow> d = c \<or> present (pde s d)" using assms(1) by (simp add: table_step_def)
  have i: "{d \<in> slots. present (pde s' d)} = insert c {d \<in> slots. present (pde s d)}" using p assms(2) by auto
  have m: "{d \<in> slots. \<not> present (pde s' d)} = {d \<in> slots. \<not> present (pde s d)} - {c}" using p by auto
  show "installed s' = (if present (pde s c) then installed s else Suc (installed s))"
    unfolding installed_def i using assms(2) by (simp add: card_insert_if)
  show "missing s = (if present (pde s c) then missing s' else Suc (missing s'))"
  proof (cases "present (pde s c)")
    case True
    then have "{d \<in> slots. \<not> present (pde s d)} - {c} = {d \<in> slots. \<not> present (pde s d)}" by auto
    then show ?thesis using True by (simp add: missing_def m)
  next
    case False
    then have "c \<in> {d \<in> slots. \<not> present (pde s d)}" using assms(2) by simp
    then have "card {d \<in> slots. \<not> present (pde s d)} = Suc (card ({d \<in> slots. \<not> present (pde s d)} - {c}))"
      by (intro card.remove) simp_all
    then show ?thesis using False by (simp add: missing_def m)
  qed
qed

section \<open>What the paging code leaves alone\<close>

definition cpu_event :: "hw_event \<Rightarrow> bool" where
  "cpu_event e \<longleftrightarrow> (case e of Invlpg a \<Rightarrow> True | SetCr0 v \<Rightarrow> True | SetCr3 v \<Rightarrow> True | SetCr4 v \<Rightarrow> True | _ \<Rightarrow> False)"

definition paging_keeps :: "'a paging_scheme \<Rightarrow> 'a paging_scheme \<Rightarrow> bool" where
  "paging_keeps s s' \<longleftrightarrow> paging.more s' = paging.more s \<and> cr0 s' = cr0 s \<and> cr3 s' = cr3 s \<and> cr4 s' = cr4 s"

lemma paging_keeps_refl [simp]: "paging_keeps s s"
  by (simp add: paging_keeps_def)

lemma paging_keeps_trans: "paging_keeps s s' \<Longrightarrow> paging_keeps s' s'' \<Longrightarrow> paging_keeps s s''"
  by (simp add: paging_keeps_def)

lemma more_emit [simp]: "paging.more (emit k s) = paging.more s" "paging.more (hw e s) = paging.more s"
  by (simp_all add: emit_def hw_def)

lemma paging_keeps_emit [simp]: "paging_keeps s (emit k s') = paging_keeps s s'" "paging_keeps s (hw e s') = paging_keeps s s'"
  by (simp_all add: paging_keeps_def)

lemma paging_keeps_set_entry [simp]: "paging_keeps s (set_entry p i e s') = paging_keeps s s'"
  by (simp add: paging_keeps_def set_entry_def)

lemma alloc_keeps:
  assumes "allocate_from_free_list s = (p, s1)"
  shows "paging_keeps s s1" "unat (next_free_page s1) \<le> unat (next_free_page s) + 4096"
proof -
  have s1: "s1 = snd (allocate_from_free_list s)" using assms by simp
  show "paging_keeps s s1" unfolding s1 by (simp add: allocate_from_free_list_def Let_def paging_keeps_def)
  have "unat (next_free_page s + 4096) \<le> unat (next_free_page s) + 4096"
    by (simp add: unat_word_ariths order_trans [OF mod_less_eq_dividend])
  then show "unat (next_free_page s1) \<le> unat (next_free_page s) + 4096"
    unfolding s1 by (simp add: allocate_from_free_list_def Let_def)
qed

lemma map_page_keeps:
  assumes "tables_inv s U n" "map_page va pa flags s = (r, s')"
  shows "paging_keeps s s'"
    "unat (next_free_page s') \<le> unat (next_free_page s) + (if present (pde s (drop_bit 21 va)) then 0 else 4096)"
proof -
  obtain p s1 where a: "allocate_from_free_list s = (p, s1)" by fastforce
  have s': "s' = snd (map_page va pa flags s)" using assms(2) by simp
  have e: "ensure_table c flags s = (if present (pde s c) then s
      else set_entry (slot_dir s1 c) (take_bit 9 c) (pde_for p flags) s1)" for c
    by (simp add: ensure_table_def a)
  show "paging_keeps s s'"
    unfolding s' map_page_eq [OF assms(1)] by (simp add: e alloc_keeps(1) [OF a])
  show "unat (next_free_page s') \<le> unat (next_free_page s) + (if present (pde s (drop_bit 21 va)) then 0 else 4096)"
    unfolding s' map_page_eq [OF assms(1)] using alloc_keeps(2) [OF a] by (simp add: e)
qed

section \<open>Mapping\<close>

lemma paging_ok_map_page:
  assumes ok: "paging_ok s" and call: "map_page va pa flags s = (r, s')"
  shows "r = 0" "paging_ok s'" "io s' = io s @ [Invlpg va]" "kout s' = kout s" "pdpt s' = pdpt s" "paging_keeps s s'"
    "drop_bit 9 v \<in> slots \<Longrightarrow> pte s' v = (if v = page_no va then pa OR ucast flags else pte s v)"
proof -
  obtain U n where inv: "tables_inv s U (Suc n)" and n: "missing s \<le> n" using ok by (auto simp: paging_ok_def)
  have w: "walk_inv s" using ok by (simp add: paging_ok_def)
  define c where "c = drop_bit 21 va"
  have c: "c \<in> slots" by (simp add: c_def va_slot)
  note M = map_page_step [OF inv call]
  obtain U' where S: "table_step c (\<lambda>v e. if v = page_no va then pa OR ucast flags else e) s U n s' U'"
    using M(3) unfolding c_def by blast
  note C = step_counts [OF S c]
  show "r = 0" "io s' = io s @ [Invlpg va]" using M(1,2) by simp_all
  show "kout s' = kout s" "pdpt s' = pdpt s" using S by (simp_all add: table_step_def)
  note K = map_page_keeps [OF inv call, folded c_def]
  show "paging_keeps s s'" by (rule K(1))
  show "drop_bit 9 v \<in> slots \<Longrightarrow> pte s' v = (if v = page_no va then pa OR ucast flags else pte s v)"
    using S unfolding table_step_def by blast
  have "\<exists>U n. tables_inv s' U (Suc n) \<and> missing s' \<le> n"
  proof (cases "present (pde s c)")
    case True
    then have "tables_inv s' U' (Suc n)" using S by (simp add: table_step_def)
    then show ?thesis using n C(2) True by auto
  next
    case False
    then have t: "tables_inv s' U' n" "Suc (missing s') \<le> n" using S n C(2) by (simp_all add: table_step_def)
    then obtain m where "n = Suc m" by (cases n) auto
    then show ?thesis using t by auto
  qed
  moreover have "unat (next_free_page s') \<le> 0x1420000 + 4096 * installed s'"
    using K(2) C(1) ok by (auto simp: paging_ok_def split: if_splits)
  ultimately show "paging_ok s'" using table_step_walk [OF w inv S] by (simp add: paging_ok_def)
qed

lemma paging_ok_emit [simp]: "paging_ok (emit k s) = paging_ok s" "paging_ok (hw e s) = paging_ok s"
    "identity_kept (emit k s) = identity_kept s" "identity_kept (hw e s) = identity_kept s"
proof -
  have "walk_inv (hw e s) = walk_inv s" by (simp add: walk_inv_def pdpt_ok_def get_entry_def)
  then show "paging_ok (hw e s) = paging_ok s" by (simp add: paging_ok_def installed_def missing_def)
  have "next_free_page (emit k s) = next_free_page s" by (simp add: emit_def)
  then show "paging_ok (emit k s) = paging_ok s" by (simp add: paging_ok_def installed_def missing_def)
qed (simp_all add: identity_kept_def)

lemma paging_ok_identity: "paging_ok s \<Longrightarrow> paging_ok (map_identity a s) \<and> paging_keeps s (map_identity a s) \<and>
    (\<exists>es. io (map_identity a s) = io s @ es \<and> list_all cpu_event es)"
proof -
  assume ok: "paging_ok s"
  obtain r s' where c: "map_page a (ucast a) (1 OR 2) s = (r, s')" by fastforce
  note M = paging_ok_map_page [OF ok c]
  show ?thesis using M(2,3,6) c by (simp add: map_identity_def cpu_event_def)
qed

lemma paging_ok_pages:
  assumes "paging_ok s"
  shows "paging_ok (for_pages a b map_identity s) \<and> paging_keeps s (for_pages a b map_identity s) \<and>
    (\<exists>es. io (for_pages a b map_identity s) = io s @ es \<and> list_all cpu_event es)"
  unfolding for_pages_def
proof (rule for_lt_preserves)
  show "paging_ok s \<and> paging_keeps s s \<and> (\<exists>es. io s = io s @ es \<and> list_all cpu_event es)" using assms by simp
next
  fix i t assume t: "paging_ok t \<and> paging_keeps s t \<and> (\<exists>es. io t = io s @ es \<and> list_all cpu_event es)"
  define t' where "t' = map_identity (a + i * PAGE_SIZE) t"
  obtain es fs where e: "io t = io s @ es" "list_all cpu_event es" "io t' = io t @ fs" "list_all cpu_event fs"
    using t paging_ok_identity [of t "a + i * PAGE_SIZE"] unfolding t'_def by blast
  then have "io t' = io s @ (es @ fs) \<and> list_all cpu_event (es @ fs)" by simp
  then show "paging_ok (map_identity (a + i * PAGE_SIZE) t) \<and> paging_keeps s (map_identity (a + i * PAGE_SIZE) t) \<and>
      (\<exists>es. io (map_identity (a + i * PAGE_SIZE) t) = io s @ es \<and> list_all cpu_event es)"
    using t paging_ok_identity [of t "a + i * PAGE_SIZE"] unfolding t'_def by (blast intro: paging_keeps_trans)
qed

text \<open>Only memory and the variables of the paging code count.\<close>

lemma paging_ok_cong:
  fixes s :: "'a paging_scheme" and t :: "'b paging_scheme"
  assumes "mem t = mem s" "pdpt t = pdpt s" "page_directories t = page_directories s"
    "free_list_head t = free_list_head s" "next_free_page t = next_free_page s"
  shows "paging_ok t = paging_ok s" "pte t v = pte s v"
proof -
  have sl: "slot_dir t c = slot_dir s c" "get_entry q i t = get_entry q i s" for c q i
    by (simp_all add: slot_dir_def get_entry_def assms)
  have pd: "pde t c = pde s c" for c by (simp add: pde_def sl)
  show "pte t v = pte s v" by (simp add: pte_def slot_table_def pd sl)
  have "tables_inv t U n = tables_inv s U n" for U n
    by (simp add: tables_inv_def pool_owns_def pool_inv_def pool_page_def bump_room_def dirs_ok_def slot_table_def pd assms)
  moreover have "walk_inv t = walk_inv s" by (simp add: walk_inv_def pdpt_ok_def pd sl assms)
  ultimately show "paging_ok t = paging_ok s" by (simp add: paging_ok_def installed_def missing_def pd assms)
qed

section \<open>Writing above 32 MB\<close>

lemma page_no_low: "unat x < 0x2000000 \<longleftrightarrow> unat (page_no x) < 8192"
  unfolding unat_page_no by linarith

lemma low_page_same:
  assumes "unat q < 0x2000000" "\<forall>x. unat x < 0x2000000 \<longrightarrow> m x = mem s x"
  shows "same_page q (mem s) m"
  unfolding same_page_def
proof (intro allI impI)
  fix x assume "page_no x = page_no q"
  then have "unat x < 0x2000000" using assms(1) by (simp add: page_no_low)
  then show "m x = mem s x" using assms(2) by blast
qed

lemma paging_ok_write_high:
  fixes s :: "'a paging_scheme"
  assumes ok: "paging_ok s" and m: "\<forall>x. unat x < 0x2000000 \<longrightarrow> m x = mem s x"
  defines "t \<equiv> s\<lparr>mem := m\<rparr>"
  shows "paging_ok t" "drop_bit 9 v \<in> slots \<Longrightarrow> pte t v = pte s v"
proof -
  obtain U n where inv: "tables_inv s U (Suc n)" and n: "missing s \<le> n" using ok by (auto simp: paging_ok_def)
  obtain ps where ps: "pool_inv s ps U" "Suc n \<le> length ps + bump_room s"
    using inv_dirs(2) [OF inv] by (auto simp: pool_owns_def)
  have same: "same_page q (mem s) (mem t)" if "q \<in> set ps \<union> U" for q
  proof -
    have "unat q < unat (next_free_page s)" using ps(1) that by (auto simp: pool_inv_def pool_page_def)
    then have "unat q < 0x2000000" using paging_ok_low [OF ok] by linarith
    then show ?thesis using low_page_same [OF _ m] by (simp add: t_def)
  qed
  have entry: "get_entry q i t = get_entry q i s" if "q \<in> U" "unat i < 512" for q i
    using that same inv_aligned [OF inv that(1)] by (intro get_entry_same) auto
  have dir: "slot_dir t c = slot_dir s c" for c by (simp add: slot_dir_def t_def)
  have pde: "pde t c = pde s c" if "c \<in> slots" for c
    using inv_dir [OF inv that] slot_parts(2) [of c] by (simp add: pde_def dir entry)
  then have tab: "slot_table t c = slot_table s c" if "c \<in> slots" for c using that by (simp add: slot_table_def)
  show "pte t v = pte s v" if v: "drop_bit 9 v \<in> slots" for v
    using pde [OF v] tab [OF v] inv_table [OF inv v] entry unat_take9 by (simp add: pte_def)
  have "pool_inv t ps U" by (rule pool_inv_frame [OF ps(1)]) (use same in \<open>simp_all add: t_def\<close>)
  moreover have "bump_room t = bump_room s" by (simp add: bump_room_def t_def)
  ultimately have "pool_owns t U (Suc n)" using ps(2) by (auto simp: pool_owns_def)
  moreover have "dirs_ok t U" using inv_dirs(1) [OF inv] by (simp add: dirs_ok_def t_def)
  ultimately have ti: "tables_inv t U (Suc n)"
    using inv pde tab by (simp add: tables_inv_def) (simp add: t_def)
  have "pdpt s \<in> U" using inv_dirs(1) [OF inv] by (simp add: dirs_ok_def)
  then have "pdpt_ok t" using ok entry by (simp add: paging_ok_def walk_inv_def pdpt_ok_def) (simp add: t_def)
  then have "walk_inv t" using ok pde by (simp add: paging_ok_def walk_inv_def)
  moreover have "installed t = installed s" "missing t = missing s"
    unfolding installed_def missing_def using pde by (auto intro!: arg_cong [where f = card])
  ultimately show "paging_ok t" using ok ti n by (auto simp: paging_ok_def t_def)
qed

section \<open>What the processor sees\<close>

lemma identity_walk:
  assumes "paging_ok s" "identity_kept s" "unat va < 0x2000000"
  shows "pae_walk (mem s) (pdpt s) va = Some (ucast va)"
proof -
  obtain U n where inv: "tables_inv s U n" and w: "walk_inv s" using assms(1) by (auto simp: paging_ok_def)
  have "pte s (page_no va) = identity_pte (page_no va)" using assms(2,3) by (simp add: identity_kept_def page_no_low)
  then show ?thesis unfolding pae_walk_leaf [OF inv w] by (simp add: identity_pte_facts(1) identity_leaf)
qed

section \<open>The start\<close>

lemma paging_ok_init:
  assumes "fresh_paging s"
  shows "paging_ok (paging_init s)"
proof -
  note F = fresh_pool [OF assms]
  define t where "t = paging_init s"
  note I = paging_init_state [OF F(1,2,3), unfolded F(4,5), simplified, folded t_def]
  note R = init_loop_result [OF I(1)]
  have "missing t \<le> 1044441" using missing_le [of t] by linarith
  moreover have "tables_inv t (pool_owned 0x1020000 1019) (Suc 1044441)" using R(4) by simp
  moreover have "walk_inv t" using R(2,3) by (simp add: walk_inv_def present_def)
  moreover have "unat (next_free_page t) \<le> 0x1420000" using I(7) by simp
  ultimately show ?thesis unfolding t_def [symmetric] paging_ok_def by (intro conjI exI) (assumption | simp)+
qed

lemma paging_ok_setup:
  assumes "fresh_paging s"
  shows "paging_ok (setup_kernel_heap (setup_identity_mapping (paging_init s)))"
proof -
  have "paging_ok (for_pages a b map_identity (printk f args t))" if "paging_ok t" for a b f args and t :: "'a paging_scheme"
    using paging_ok_pages [of "printk f args t" a b] that by simp
  then show ?thesis using paging_ok_init [OF assms]
    by (simp add: setup_kernel_heap_def setup_identity_mapping_def Let_def)
qed

lemma paging_ok_tables: "paging_ok s \<Longrightarrow> p \<in> tables s \<Longrightarrow> unat p < 0x2000000"
proof -
  assume ok: "paging_ok s" and p: "p \<in> tables s"
  obtain U n where inv: "tables_inv s U n" using ok by (auto simp: paging_ok_def)
  then have "p \<in> U" using inv_tables_owned p by blast
  then have "unat p < unat (next_free_page s)" using inv_dirs(2) [OF inv] by (auto simp: pool_owns_def pool_inv_def pool_page_def)
  then show "unat p < 0x2000000" using paging_ok_low [OF ok] by simp
qed



end
