(* ===== verification/Keyboard_Props.thy ===== *)
theory Keyboard_Props
  imports Display_Props Paging_Life
begin

text \<open>
  The properties of the keyboard driver: what it types, against the US layout written down
  key by key, and when the two variables that hold the display mode agree.
\<close>

section \<open>The layout\<close>

text \<open>The keys of scan code set 1 that type something visible, plain and shifted.\<close>

definition us_layout :: "(nat \<times> char \<times> char) list" where
  "us_layout =
     zip [0x02..<0x0E] (zip ''1234567890-='' ''!@#$%^&*()_+'') @
     zip [0x10..<0x1C] (zip ''qwertyuiop[]'' ''QWERTYUIOP{}'') @
     zip [0x1E..<0x28] (zip ''asdfghjkl;'' ''ASDFGHJKL:'') @
     [(0x28, CHR 0x27, CHR 0x22), (0x29, CHR 0x60, CHR ''~''), (0x2B, CHR 0x5C, CHR ''|'')] @
     zip [0x2C..<0x36] (zip ''zxcvbnm,./'' ''ZXCVBNM<>?'') @
     [(0x37, CHR ''*'', CHR ''*''), (0x39, CHR '' '', CHR '' '')]"

definition small_letter :: "char \<Rightarrow> bool" where
  "small_letter c \<longleftrightarrow> c \<in> set ''abcdefghijklmnopqrstuvwxyz''"

text \<open>What a key types: the control keys first; caps lock makes letters capital.\<close>

definition key_text :: "bool \<Rightarrow> bool \<Rightarrow> nat \<Rightarrow> string" where
  "key_text shift caps k =
     (if k = 0x01 then [CHR 0x1B] else if k = 0x0E then [CHR 0x08] else if k = 0x0F then ''    ''
      else if k = 0x1C then [CHR 0x0A]
      else case map_of us_layout k of None \<Rightarrow> []
           | Some (plain, shifted) \<Rightarrow>
               [if shift \<or> caps \<and> small_letter plain then shifted else plain])"

text \<open>A keyboard as its user sees it: the modifiers shift, caps lock and Alt, and the text typed.\<close>

definition type_key :: "u8 \<Rightarrow> bool \<times> bool \<times> bool \<Rightarrow> (bool \<times> bool \<times> bool) \<times> string" where
  "type_key code = (\<lambda>(shift, caps, alt).
     let k = unat (take_bit 7 code); released = bit code 7
     in if k = 0x2A \<or> k = 0x36 then ((\<not> released, caps, alt), [])
        else if k = 0x38 then ((shift, caps, \<not> released), [])
        else if released then ((shift, caps, alt), [])
        else if k = 0x3A then ((shift, \<not> caps, alt), [])
        else ((shift, caps, alt), if alt then [] else key_text shift caps k))"

definition modifiers :: "'a keyboard_scheme \<Rightarrow> bool \<times> bool \<times> bool" where
  "modifiers s = (shift_pressed s, caps_lock s, alt_pressed s)"

section \<open>The tables\<close>

text \<open>What \<open>put_key\<close> makes of a character of a table.\<close>

definition char_text :: "char \<Rightarrow> string" where
  "char_text c = (if c = CHR 0x00 then [] else if c = CHR 0x09 then ''    '' else [c])"

definition caps_char :: "bool \<Rightarrow> char \<Rightarrow> char" where
  "caps_char caps c = (if caps \<and> of_char (CHR ''a'') \<le> (of_char c :: nat) \<and> (of_char c :: nat) \<le> of_char (CHR ''z'')
     then char_of (of_char c - of_char (CHR ''a'') + of_char (CHR ''A'') :: nat) else c)"

definition table_char :: "bool \<Rightarrow> bool \<Rightarrow> nat \<Rightarrow> char" where
  "table_char shift caps k = (if shift then scancode_to_ascii_shift ! k else caps_char caps (scancode_to_ascii ! k))"

lemma table_length: "length scancode_to_ascii = 104" "length scancode_to_ascii_shift = 104"
  by (simp_all add: scancode_to_ascii_def scancode_to_ascii_shift_def)

lemma replicate_unfold: "replicate (numeral n) x = x # replicate (pred_numeral n) x"
  by (simp add: numeral_eq_Suc)

lemmas table_simps = scancode_to_ascii_def scancode_to_ascii_shift_def replicate_unfold

text \<open>The five characters of a table that are no visible ones.\<close>

definition control_char :: "char \<Rightarrow> bool" where
  "control_char c \<longleftrightarrow> c \<in> {CHR 0x00, CHR 0x1B, CHR 0x08, CHR 0x09, CHR 0x0A}"

text \<open>The layout is the numbered table without the control characters.\<close>

lemma layout_tables: "us_layout =
    filter (\<lambda>(k, a, b). \<not> control_char a) (zip [0..<104] (zip scancode_to_ascii scancode_to_ascii_shift))"
  by (simp add: us_layout_def table_simps control_char_def upt_rec)

lemma map_of_filter_zip:
  assumes "length vs = n"
  shows "map_of (filter (\<lambda>(k, v). P v) (zip [0..<n] vs)) k = (if k < n \<and> P (vs ! k) then Some (vs ! k) else None)"
proof -
  define xs where "xs = filter (\<lambda>(k, v). P v) (zip [0..<n] vs)"
  have "distinct (map fst (zip [0..<n] vs))" using assms by simp
  then have d: "distinct (map fst xs)" unfolding xs_def by (rule distinct_map_filter)
  have m: "(k, v) \<in> set xs \<longleftrightarrow> k < n \<and> v = vs ! k \<and> P v" for v
    using assms by (auto simp: xs_def set_zip intro: exI [of _ k])
  show ?thesis
  proof (cases "k < n \<and> P (vs ! k)")
    case True
    then have "(k, vs ! k) \<in> set xs" using m by simp
    then show ?thesis using True map_of_is_SomeI [OF d] unfolding xs_def by simp
  next
    case False
    then have "map_of xs k = None" using m by (auto simp: map_of_eq_None_iff)
    then show ?thesis using False unfolding xs_def by auto
  qed
qed

lemma control_keys: "list_all (\<lambda>(k, a). (a = CHR 0x1B \<longleftrightarrow> k = 0x01) \<and> (a = CHR 0x08 \<longleftrightarrow> k = 0x0E) \<and> (a = CHR 0x09 \<longleftrightarrow> k = 0x0F) \<and>
    (a = CHR 0x0A \<longleftrightarrow> k = 0x1C)) (zip [0..<104] scancode_to_ascii)"
  by (simp add: table_simps upt_rec)

lemma shifted_keys: "list_all (\<lambda>(a, b). if control_char a then b = a else \<not> control_char b) (zip scancode_to_ascii scancode_to_ascii_shift)"
  by (simp add: table_simps control_char_def)

lemma capital_keys: "list_all (\<lambda>(a, b). caps_char True a = (if small_letter a then b else a)) (zip scancode_to_ascii scancode_to_ascii_shift)"
  by (simp add: table_simps small_letter_def caps_char_def char_of_def bit_0)

lemma tables_layout:
  assumes k: "k < 104"
  shows "char_text (table_char shift caps k) = key_text shift caps k"
proof -
  define a where "a = scancode_to_ascii ! k"
  define b where "b = scancode_to_ascii_shift ! k"
  have ab: "(a, b) \<in> set (zip scancode_to_ascii scancode_to_ascii_shift)" "(k, a) \<in> set (zip [0..<104] scancode_to_ascii)"
    using k nth_mem [of k "zip scancode_to_ascii scancode_to_ascii_shift"] nth_mem [of k "zip [0..<104] scancode_to_ascii"]
    by (simp_all add: a_def b_def table_length)
  have m: "map_of us_layout k = (if control_char a then None else Some (a, b))"
    unfolding layout_tables using k map_of_filter_zip [of "zip scancode_to_ascii scancode_to_ascii_shift" 104 "\<lambda>(a, b). \<not> control_char a" k]
    by (simp add: table_length a_def b_def case_prod_unfold)
  have c: "a = CHR 0x1B \<longleftrightarrow> k = 0x01" "a = CHR 0x08 \<longleftrightarrow> k = 0x0E" "a = CHR 0x09 \<longleftrightarrow> k = 0x0F" "a = CHR 0x0A \<longleftrightarrow> k = 0x1C"
    using bspec [OF control_keys [unfolded list_all_iff] ab(2)] by simp_all
  have s: "if control_char a then b = a else \<not> control_char b" using bspec [OF shifted_keys [unfolded list_all_iff] ab(1)] by simp
  have p: "caps_char caps a = (if caps \<and> small_letter a then b else a)"
  proof (cases caps)
    case True
    then show ?thesis using bspec [OF capital_keys [unfolded list_all_iff] ab(1)] by simp
  qed (simp add: caps_char_def)
  have t: "table_char shift caps k = (if shift \<or> caps \<and> small_letter a then b else a)"
    unfolding table_char_def a_def [symmetric] b_def [symmetric] p by auto
  show ?thesis
  proof (cases "control_char a")
    case True
    then have "table_char shift caps k = a" using s unfolding t by simp
    moreover have "a = CHR 0x00 \<or> k = 0x01 \<or> k = 0x0E \<or> k = 0x0F \<or> k = 0x1C" using True c by (auto simp: control_char_def)
    ultimately show ?thesis using True c m by (auto simp: key_text_def char_text_def)
  next
    case False
    then have "k \<noteq> 0x01" "k \<noteq> 0x0E" "k \<noteq> 0x0F" "k \<noteq> 0x1C" using c by (auto simp: control_char_def)
    moreover have "char_text (table_char shift caps k) = [table_char shift caps k]"
      using False s unfolding t by (simp add: char_text_def control_char_def)
    ultimately show ?thesis using False m t by (simp add: key_text_def)
  qed
qed

lemma layout_short: "list_all (\<lambda>(k, _). k < 104) us_layout"
  by (simp add: us_layout_def upt_rec)

lemma no_text_above: "104 \<le> k \<Longrightarrow> key_text shift caps k = []"
proof -
  assume k: "104 \<le> k"
  have "map_of us_layout k = None"
    using layout_short k by (auto simp: map_of_eq_None_iff list_all_iff)
  then show ?thesis using k by (simp add: key_text_def)
qed

section \<open>Typing\<close>

lemma scancode_parts:
  fixes code :: u8
  shows "code AND 0x80 \<noteq> 0 \<longleftrightarrow> bit code 7" "code AND 0x7F = take_bit 7 code" "\<not> bit code 7 \<Longrightarrow> take_bit 7 code = code"
proof -
  have "code AND 2 ^ 7 = 0 \<longleftrightarrow> \<not> bit code 7" by (rule and_exp_eq_0_iff_not_bit)
  then show "code AND 0x80 \<noteq> 0 \<longleftrightarrow> bit code 7" by simp
  show "code AND 0x7F = take_bit 7 code" by (simp add: take_bit_eq_mask mask_eq_exp_minus_1)
  assume no: "\<not> bit code 7"
  show "take_bit 7 code = code"
  proof (rule bit_word_eqI)
    fix n assume "n < LENGTH(8)"
    then have "n < 7 \<or> n = 7" by auto
    then show "bit (take_bit 7 code) n = bit code n" using no by (auto simp: bit_take_bit_iff)
  qed
qed

text \<open>An operation that only adds the calls that type a text.\<close>

definition types :: "string \<Rightarrow> 'a machine_scheme \<Rightarrow> 'a machine_scheme \<Rightarrow> bool" where
  "types str s t \<longleftrightarrow> (\<exists>ks. t = s\<lparr>kout := kout s @ ks\<rparr> \<and> (\<forall>c. console_run ks c = Some (fold kputchar str c)))"

lemma types_nil [simp]: "types [] s s"
  unfolding types_def by (rule exI [of _ "[]"]) simp

lemma types_char: "types [c] s (emit (KPutchar c) s)"
  unfolding types_def by (rule exI [of _ "[KPutchar c]"]) (simp add: emit_def)

lemma types_print: "CHR ''%'' \<notin> set str \<Longrightarrow> types str s (printk str [] s)"
  unfolding types_def by (rule exI [of _ "[KPrintf str []]"]) (simp add: emit_def kprintf_render render_plain)

lemma put_key_types: "types (char_text c) s (put_key c s)"
proof -
  have "types ''\<newline>'' s (printk ''\<newline>'' [] s)" "types ''    '' s (printk ''    '' [] s)" by (rule types_print; simp)+
  then show ?thesis by (simp add: put_key_def char_text_def types_char)
qed

lemma key_ascii_table: "key_ascii code s = table_char (shift_pressed s) (caps_lock s) (unat code)"
  by (simp add: key_ascii_def table_char_def caps_char_def Let_def)

lemma press_types:
  assumes "\<not> alt_pressed s" "\<not> bit code 7" "code \<noteq> 0x01"
  shows "types (key_text (shift_pressed s) (caps_lock s) (unat code)) s
    (if unat code < length scancode_to_ascii then put_key (key_ascii code s) s else s)"
proof (cases "unat code < 104")
  case True
  then show ?thesis using put_key_types [of "key_ascii code s" s] tables_layout [OF True, of "shift_pressed s" "caps_lock s"]
    by (simp add: key_ascii_table table_length)
qed (simp add: table_length no_text_above)

lemma handler_types:
  fixes s :: "'a keyboard_scheme"
  assumes "\<not> (alt_pressed s \<and> code = 0x22)"
  shows "case fst (type_key code (modifiers s)) of (sh, ca, al) \<Rightarrow> types (snd (type_key code (modifiers s)))
      (s\<lparr>shift_pressed := sh, caps_lock := ca, alt_pressed := al\<rparr>) (keyboard_handler dev code s)"
proof -
  have eq: "unat (take_bit 7 code) = 0x2A \<longleftrightarrow> take_bit 7 code = 0x2A" "unat (take_bit 7 code) = 0x36 \<longleftrightarrow> take_bit 7 code = 0x36"
    "unat (take_bit 7 code) = 0x38 \<longleftrightarrow> take_bit 7 code = 0x38" "unat (take_bit 7 code) = 0x3A \<longleftrightarrow> take_bit 7 code = 0x3A"
    by (simp_all add: word_unat_eq_iff)
  have self: "s\<lparr>shift_pressed := shift_pressed s, caps_lock := caps_lock s, alt_pressed := alt_pressed s\<rparr> = s" by simp
  show ?thesis
  proof (cases "bit code 7")
    case True
    then show ?thesis unfolding keyboard_handler_def Let_def scancode_parts(1,2) type_key_def modifiers_def
      by (auto simp: eq)
  next
    case False
    then have tb: "take_bit 7 code = code" by (rule scancode_parts(3))
    have esc: "key_text a b 1 = [CHR 0x1B]" for a b by (simp add: key_text_def)
    show ?thesis
    proof (cases "code \<in> {0x2A, 0x36, 0x38, 0x01, 0x3A}")
      case True
      then consider "code = 0x2A" | "code = 0x36" | "code = 0x38" | "code = 0x01" | "code = 0x3A" by blast
      then show ?thesis using types_char [of "CHR 0x1B" s] esc self
        unfolding keyboard_handler_def Let_def scancode_parts(1,2) type_key_def modifiers_def tb by cases simp_all
    next
      case other: False
      have t: "type_key code (modifiers s) = (modifiers s, if alt_pressed s then []
          else key_text (shift_pressed s) (caps_lock s) (unat code))"
        using other False by (simp add: type_key_def modifiers_def tb eq [unfolded tb])
      have h: "keyboard_handler dev code s = (if alt_pressed s then s
          else if unat code < length scancode_to_ascii then put_key (key_ascii code s) s else s)"
        using other False assms by (simp add: keyboard_handler_def scancode_parts)
      have "types (snd (type_key code (modifiers s))) s (keyboard_handler dev code s)"
        unfolding t h using press_types [of s code] False other by simp
      then show ?thesis unfolding t fst_conv by (simp add: modifiers_def)
    qed
  qed
qed

text \<open>C9: the keyboard driver refines the keyboard its user sees: for every scan code but that of
  Alt+G, in every state, the modifiers after the handler are those of the layout's
  specification, the calls it adds put exactly the text the key types on the screen, control
  keys and tab included, and nothing else changes.\<close>
theorem keyboard_refines_layout:
  fixes s :: "'a keyboard_scheme" and dev :: device and code :: u8
  assumes "\<not> (alt_pressed s \<and> code = 0x22)"
  defines "t \<equiv> keyboard_handler dev code s"
  shows "modifiers t = fst (type_key code (modifiers s)) \<and>
    (\<exists>ks. kout t = kout s @ ks \<and> (\<forall>c. console_run ks c = Some (fold kputchar (snd (type_key code (modifiers s))) c))) \<and>
    t = s\<lparr>shift_pressed := shift_pressed t, caps_lock := caps_lock t, alt_pressed := alt_pressed t, kout := kout t\<rparr>"
proof -
  obtain sh ca al ks where k: "t = s\<lparr>shift_pressed := sh, caps_lock := ca, alt_pressed := al, kout := kout s @ ks\<rparr>"
    "\<forall>c. console_run ks c = Some (fold kputchar (snd (type_key code (modifiers s))) c)"
    "fst (type_key code (modifiers s)) = (sh, ca, al)"
    using handler_types [OF assms(1), of dev] unfolding t_def types_def by (auto split: prod.splits)
  have "modifiers t = (sh, ca, al)" by (simp add: k(1) modifiers_def)
  then show ?thesis using k(2,3) by (simp add: k(1))
qed

theorem keyboard_refines_layout_witness:
  "\<exists>ks. kout (keyboard_handler idle_device 0x1E (kernel_power_on (\<lambda>_. 0)\<lparr>caps_lock := True\<rparr>)) = ks \<and>
    (\<forall>c. console_run ks c = Some (kputchar (CHR ''A'') c))"
proof -
  have "key_text False True 30 = ''A''" by (simp add: key_text_def us_layout_def small_letter_def upt_rec)
  then have t: "snd (type_key 0x1E (False, True, False)) = ''A''"
    by (simp add: type_key_def)
  have "\<not> (alt_pressed (kernel_power_on (\<lambda>_. 0)\<lparr>caps_lock := True\<rparr>) \<and> (0x1E :: u8) = 0x22)" by simp
  from keyboard_refines_layout [OF this, of idle_device] show ?thesis
    by (simp add: modifiers_def t)
qed

section \<open>The display mode\<close>

text \<open>Mapping and clearing keep the variables of the drivers, in any state.\<close>

lemma map_page_more: "paging.more (snd (map_page va pa flags s)) = paging.more s"
proof -
  obtain p s1 where a: "allocate_from_free_list s = (p, s1)" by fastforce
  have "paging.more s1 = paging.more s" using alloc_keeps(1) [OF a] by (simp add: paging_keeps_def)
  then show ?thesis unfolding map_page_def Let_def a by (simp add: set_entry_def)
qed

lemma map_framebuffer_more: "paging.more (snd (map_framebuffer lfb k i s)) = paging.more s"
proof (induction k arbitrary: i s)
  case (Suc k)
  define r where "r = map_page (lfb + i * 4096) (ucast (lfb + i * 4096)) (1 OR 2 OR 0x10) s"
  have "paging.more (snd r) = paging.more s" unfolding r_def by (rule map_page_more)
  moreover have "map_framebuffer lfb (Suc k) i s = (if fst r \<noteq> 0 then (False, snd r) else map_framebuffer lfb k (i + 1) (snd r))"
    by (simp add: r_def Let_def case_prod_beta)
  ultimately show ?case using Suc.IH [of "i + 1" "snd r"] by simp
qed simp

lemma clear_screen_more: "paging.more (vga_clear_screen_now dev s) = paging.more s"
  unfolding vga_clear_screen_now_def Let_def case_prod_beta by (simp add: map_framebuffer_more)

lemma mode_fields:
  fixes s t :: "'a keyboard_scheme"
  assumes "paging.more t = paging.more s"
  shows "current_mode t = current_mode s" "vesa_mode_active t = vesa_mode_active s"
  using assms by (cases s, cases t, simp)+

text \<open>The outcome of a switch, as the two variables show it.\<close>

lemma toggle_mode_fields:
  fixes s :: "'a keyboard_scheme" and dev :: device
  defines "text \<equiv> vesa_set_text dev (io s @ [VesaSetText]) = 0" and "graphics \<equiv> vesa_set_mode dev (io s @ [VesaSetMode]) = 0"
  shows "vesa_mode_active (toggle_mode dev s) = (\<not> vesa_mode_active s \<and> graphics)"
    "current_mode (toggle_mode dev s) = (if vesa_mode_active s then (if text then 0 else current_mode s)
      else if graphics then 1 else current_mode s)"
proof -
  define s1 where "s1 = hw VesaSetMode (printk ''VGA: Attempting to set VESA 1024x768 mode...\<newline>'' []
    (printk ''\<newline>Switching to VESA mode via Alt+G...\<newline>'' [] s))"
  define s2 where "s2 = (printk ''VGA: Resolution: %dx%d, %d bpp, LFB at 0x%08X\<newline>''
    [KInt (mode_width dev (io s1)), KInt (mode_height dev (io s1)), KInt (mode_bpp dev (io s1)), KInt (lfb_address dev (io s1))]
    (printk ''VGA: VESA mode set successfully!\<newline>'' [] s1))\<lparr>current_mode := 1\<rparr>"
  have io1: "io s1 = io s @ [VesaSetMode]" by (simp add: s1_def)
  have v: "vga_set_vesa_mode_1024x768 dev (printk ''\<newline>Switching to VESA mode via Alt+G...\<newline>'' [] s) =
      (if graphics then (0, vga_clear_screen_now dev s2)
       else (- 1, printk ''VGA: Failed to set VESA mode (error %d)\<newline>'' [KInt (vesa_set_mode dev (io s1))] s1))"
  proof -
    have "current_mode s2 = 1" by (simp add: s2_def)
    then show ?thesis unfolding vga_set_vesa_mode_1024x768_def vga_clear_screen_def Let_def s1_def [symmetric] s2_def [symmetric]
      by (simp add: io1 graphics_def)
  qed
  have k: "current_mode (vga_clear_screen_now dev s2) = 1"
    using mode_fields(1) [OF clear_screen_more, of dev s2] by (simp add: s2_def)
  have f: "vesa_mode_active s1 = vesa_mode_active s" "current_mode s1 = current_mode s" by (simp_all add: s1_def emit_def hw_def)
  have t: "current_mode (vga_set_text_mode_80x25 dev s) = (if text then 0 else current_mode s)"
    by (simp add: vga_set_text_mode_80x25_def Let_def text_def) (simp add: emit_def hw_def)
  show "vesa_mode_active (toggle_mode dev s) = (\<not> vesa_mode_active s \<and> graphics)"
    unfolding toggle_mode_def Let_def v using f by (simp add: emit_def)
  show "current_mode (toggle_mode dev s) = (if vesa_mode_active s then (if text then 0 else current_mode s)
      else if graphics then 1 else current_mode s)"
    unfolding toggle_mode_def Let_def v using f k t by (simp add: emit_def)
qed

text \<open>C33: the keyboard driver and the display driver each remember the mode, and Alt+G keeps the two
  in agreement unless the video BIOS refuses to go back to text: then the keyboard driver
  believes in text mode, the display driver in graphics, and the next Alt+G asks for graphics
  again.\<close>
theorem display_mode_agreement:
  fixes s :: "'a keyboard_scheme" and dev :: device
  assumes "vesa_mode_active s \<longleftrightarrow> current_mode s = 1"
  defines "t \<equiv> toggle_mode dev s"
  shows "(vesa_mode_active t \<longleftrightarrow> current_mode t = 1) = (if vesa_mode_active s then vesa_set_text dev (io s @ [VesaSetText]) = 0 else True) \<and>
    (if vesa_mode_active s then \<not> vesa_mode_active t \<and>
       current_mode t = (if vesa_set_text dev (io s @ [VesaSetText]) = 0 then 0 else 1)
     else vesa_mode_active t = (vesa_set_mode dev (io s @ [VesaSetMode]) = 0))"
  using assms(1) unfolding t_def toggle_mode_fields by auto

text \<open>A display that goes to graphics and not back.\<close>

theorem display_mode_agreement_witness:
  "let dev = (vesa_device 32)\<lparr>vesa_set_text := \<lambda>_. 1\<rparr>; t = toggle_mode dev (kernel_power_on (\<lambda>_. 0)\<lparr>vesa_mode_active := True, current_mode := 1\<rparr>)
   in \<not> vesa_mode_active t \<and> current_mode t = 1"
  using display_mode_agreement [of "kernel_power_on (\<lambda>_. 0)\<lparr>vesa_mode_active := True, current_mode := 1\<rparr>"
      "(vesa_device 32)\<lparr>vesa_set_text := \<lambda>_. 1\<rparr>"] by (simp add: Let_def)

end
