(* ===== verification/Kernel.thy ===== *)
theory Kernel
  imports Power_On
begin

text \<open>
  The entry of the kernel, \<open>kernel_main\<close> in \<^verbatim>\<open>src/src/kernel/kernel.c\<close>: every component is
  started in turn, interrupts are enabled, and the processor waits for them. The result is
  \<open>None\<close> when the A20 gate is waited for without end.
\<close>

definition kernel_memory_init :: "'a pmm_scheme \<Rightarrow> 'a pmm_scheme" where
  "kernel_memory_init s =
     (let s = printk ''Initializing memory management...\<newline>'' [] s;
          (_, s) = pmm_init s;
          s = pmm_print_stats s
      in pmm_print_memory_map s)"

definition kernel_paging_init :: "'a paging_scheme \<Rightarrow> 'a paging_scheme" where
  "kernel_paging_init s =
     (let s = paging_init s;
          s = setup_identity_mapping s;
          s = setup_kernel_heap s;
          s = enable_pae_paging s;
          s = printk ''PAE paging is now active.\<newline>'' [] s
      in get_memory_stats s)"

definition kernel_main :: "device \<Rightarrow> image \<Rightarrow> 'a timing_scheme \<Rightarrow> 'a timing_scheme option" where
  "kernel_main dev img s =
     (let s = emit KClear s;
          s = printk ''LikeOS-NG kernel booting...\<newline>'' [] s;
          s = printk ''Enabled protected mode.\<newline>'' [] s
      in do {
        s \<leftarrow> enable_a20_gate dev s;
        let s = timing_init dev s;
        let s = idt_install img s;
        let s = printk ''IDT initialized.\<newline>'' [] s;
        let s = kernel_memory_init s;
        let s = kernel_paging_init s;
        let s = keyboard_init s;
        let s = printk ''Keyboard initialized.\<newline>'' [] s;
        let (_, s) = vga_init s;
        let s = printk ''VGA driver initialized.\<newline>'' [] s;
        let s = irq_install dev img s;
        let s = printk ''IRQ handlers installed.\<newline>'' [] s;
        let s = printk ''Enabling interrupts...\<newline>'' [] s;
        let s = hw Sti s;
        let s = printk ''System ready.\<newline>'' [] s;
        Some (hw HaltLoop s)
      })"

end
