(* ===== verification/Kernel_Boot.thy ===== *)
theory Kernel_Boot
  imports Kernel Paging_Life Interrupt_Routing
begin

text \<open>
  What \<open>kernel_main\<close> brings about, from any contents of memory, on hardware that behaves as
  documented.
\<close>

section \<open>Events and fields\<close>

text \<open>What leaves the interrupt controllers and the enabling of interrupts alone.\<close>

definition pic_free :: "hw_event \<Rightarrow> bool" where
  "pic_free e \<longleftrightarrow> (case e of Out port v \<Rightarrow> port \<notin> {0x20, 0x21, 0xA0, 0xA1} | Sti \<Rightarrow> False | HaltLoop \<Rightarrow> False | _ \<Rightarrow> True)"

lemma pic_after_free: "list_all pic_free es \<Longrightarrow> port = 0x20 \<or> port = 0xA0 \<Longrightarrow> pic_after port p (h @ es) = pic_after port p h"
proof (induction es arbitrary: h)
  case (Cons e es)
  have "pic_event port e q = q" for q using Cons.prems by (cases e) (auto simp: pic_free_def)
  then show ?case using Cons.IH [of "h @ [e]"] Cons.prems by simp
qed simp

lemma event_classes:
  "cpu_event e \<Longrightarrow> pic_free e \<and> a20_kept e" "a20_event e \<Longrightarrow> pic_free e"
  "pic_access e \<Longrightarrow> a20_kept e \<and> e \<noteq> Sti \<and> e \<noteq> HaltLoop"
  by (auto simp: cpu_event_def pic_free_def a20_kept_def a20_event_def pic_access_def split: hw_event.splits)

lemma no_enabling:
  "list_all pic_free es \<Longrightarrow> Sti \<notin> set es \<and> HaltLoop \<notin> set es" "list_all pic_access es \<Longrightarrow> Sti \<notin> set es \<and> HaltLoop \<notin> set es"
  by (induction es) (auto simp: pic_free_def pic_access_def)

lemma kept_consts: "a20_kept Rdtsc" "a20_kept (Spin n)" "a20_kept (Lidt a l)" "a20_kept Sti" "a20_kept HaltLoop"
  by (simp_all add: a20_kept_def)

lemma access_kept: "list_all pic_access es \<Longrightarrow> list_all a20_kept es"
  by (simp add: list_all_iff event_classes(3))

lemma says_hw: "says s s' \<Longrightarrow> says s (hw e s')"
  by (rule says_keep) simp_all

lemma cpu_events: "list_all cpu_event es \<Longrightarrow> list_all pic_free es \<and> list_all a20_kept es"
  by (simp add: list_all_iff event_classes(1))

text \<open>The variables of the drivers and of the interrupt code lie outside the part the memory code changes.\<close>

lemma driver_fields:
  fixes s s' :: "'a timing_scheme"
  assumes "paging.more s' = paging.more s"
  shows "idt s' = idt s" "current_mode s' = current_mode s" "shift_pressed s' = shift_pressed s" "caps_lock s' = caps_lock s"
    "alt_pressed s' = alt_pressed s" "vesa_mode_active s' = vesa_mode_active s" "tsc_frequency s' = tsc_frequency s"
  using assms by (cases s, cases s', simp)+

lemma pmm_more_paging: "pmm.more s' = pmm.more s \<Longrightarrow> paging.more s' = paging.more s"
  by (cases s, cases s') simp

section \<open>The memory managers\<close>

lemma print_stats_more: "pmm.more (pmm_print_stats s) = pmm.more s" "io (pmm_print_stats s) = io s"
  by (simp_all add: pmm_print_stats_def Let_def emit_def)

lemma print_memory_map_more: "pmm.more (pmm_print_memory_map s) = pmm.more s \<and> io (pmm_print_memory_map s) = io s"
  unfolding pmm_print_memory_map_def
  by (rule for_lt_preserves) (simp_all add: Let_def emit_def)

lemma kernel_memory_init_state:
  assumes "\<not> pmm_initialized s" "length (pmm_regions s) = 16"
  shows "pmm.more (kernel_memory_init s) = pmm.more s" "io (kernel_memory_init s) = io s" "says s (kernel_memory_init s)"
proof -
  define s1 where "s1 = printk ''Initializing memory management...\<newline>'' [] s"
  define s2 where "s2 = snd (pmm_init s1)"
  have "\<not> pmm_initialized s1" "length (pmm_regions s1) = 16" using assms by (simp_all add: s1_def emit_def)
  note P = pmm_init_state [OF this prod.collapse [symmetric], folded s2_def]
  have e: "kernel_memory_init s = pmm_print_memory_map (pmm_print_stats s2)"
    by (simp add: kernel_memory_init_def Let_def s1_def s2_def case_prod_beta)
  have "pmm.more s1 = pmm.more s" by (simp add: s1_def emit_def)
  then show "pmm.more (kernel_memory_init s) = pmm.more s" "io (kernel_memory_init s) = io s"
    using P(8,9) by (simp_all add: e print_stats_more print_memory_map_more) (simp add: s1_def)
  have "says s s1" unfolding s1_def by (intro says_emit says_refl) (simp add: call_simps)
  then show "says s (kernel_memory_init s)" unfolding e s2_def
    by (rule says_trans [OF says_trans [OF says_trans [OF _ says_pmm_init] says_pmm_print_stats] says_pmm_print_memory_map])
qed

lemma memory_stats_state:
  "get_memory_stats s = s\<lparr>kout := kout (get_memory_stats s)\<rparr>" "says s (get_memory_stats s)"
proof -
  show "get_memory_stats s = s\<lparr>kout := kout (get_memory_stats s)\<rparr>"
    by (simp add: get_memory_stats_def Let_def emit_def split: option.split)
  show "says s (get_memory_stats s)"
    unfolding get_memory_stats_def Let_def
    by (cases "free_list_count (mem s) (free_list_head s) 0"; simp; intro says_emit says_refl; simp add: call_simps)
qed

lemma kernel_paging_init_state:
  fixes s :: "'a paging_scheme"
  assumes fr: "fresh_paging s"
  defines "t \<equiv> kernel_paging_init s"
  shows "paging_ok t" "\<forall>v. drop_bit 9 v \<in> slots \<longrightarrow> pte t v = (if unat v < 8192 then identity_pte v else 0)"
    "cr3 t = pdpt t" "bit (cr4 t) 5" "bit (cr0 t) 31" "paging.more t = paging.more s" "says s t"
    "\<exists>es. io t = io s @ es \<and> list_all cpu_event es"
proof -
  define s1 where "s1 = paging_init s"
  define s2 where "s2 = setup_identity_mapping s1"
  define s3 where "s3 = setup_kernel_heap s2"
  define s4 where "s4 = printk ''PAE paging is now active.\<newline>'' [] (enable_pae_paging s3)"
  have t: "t = get_memory_stats s4" by (simp add: t_def kernel_paging_init_def Let_def s1_def s2_def s3_def s4_def)
  obtain ks where tk: "t = s4\<lparr>kout := ks\<rparr>" using memory_stats_state(1) [of s4] unfolding t by blast
  note F = fresh_pool [OF fr]
  note I = paging_init_state [OF F(1,2,3), folded s1_def]
  have ok1: "paging_ok s1" unfolding s1_def by (rule paging_ok_init [OF fr])
  have k2: "paging_ok s2 \<and> paging_keeps s1 s2 \<and> (\<exists>es. io s2 = io s1 @ es \<and> list_all cpu_event es)"
    using paging_ok_pages [of "printk ''Setting up identity mapping for first 32MB...\<newline>'' [] s1" 0 "0x2000000"] ok1
    by (simp add: s2_def setup_identity_mapping_def Let_def paging_keeps_def)
  have k3: "paging_ok s3 \<and> paging_keeps s2 s3 \<and> (\<exists>es. io s3 = io s2 @ es \<and> list_all cpu_event es)"
    using paging_ok_pages [of "printk ''Setting up kernel heap at 0x%x (size: 0x%x)\<newline>'' [KInt 0x20000, KInt 0x1000000] s2" "0x20000" "0x1020000"] k2
    by (simp add: s3_def setup_kernel_heap_def Let_def paging_keeps_def)
  have m4: "mem s4 = mem s3" "pdpt s4 = pdpt s3" "page_directories s4 = page_directories s3" "free_list_head s4 = free_list_head s3"
    "next_free_page s4 = next_free_page s3" "paging.more s4 = paging.more s3"
    by (simp_all add: s4_def enable_pae_paging_def Let_def set_cr0_def set_cr3_def enable_pae_def set_cr4_def enable_paging_bit_def emit_def hw_def)
  have mt: "mem t = mem s3" "pdpt t = pdpt s3" "page_directories t = page_directories s3" "free_list_head t = free_list_head s3"
    "next_free_page t = next_free_page s3" using m4 by (simp_all add: tk)
  note C = paging_ok_cong [OF mt]
  show "paging_ok t" using k3 C(1) by simp
  note M = mapped_state [OF fr, folded s1_def, folded s2_def, folded s3_def]
  show "\<forall>v. drop_bit 9 v \<in> slots \<longrightarrow> pte t v = (if unat v < 8192 then identity_pte v else 0)" using M(4) by (simp add: C(2))
  show "cr3 t = pdpt t" "bit (cr4 t) 5" "bit (cr0 t) 31"
    by (simp_all add: mt tk s4_def enable_fields bit_at_5 bit_at_31)
  show "paging.more t = paging.more s" using I(5) k2 k3 m4(6) by (simp add: tk paging_keeps_def)
  have e: "says s3 (enable_pae_paging s3)"
    unfolding enable_pae_paging_def Let_def by (intro says_emit) (simp_all add: call_simps says_def set_cr0_def set_cr3_def enable_pae_def set_cr4_def enable_paging_bit_def)
  have "says s3 s4" unfolding s4_def by (rule says_emit [OF e]) (simp add: call_simps)
  then show "says s t" using M(3) memory_stats_state(2) [of s4] unfolding t by (blast intro: says_trans)
  have "io t = io s3 @ [SetCr0 (cr0 s3 AND NOT 0x80000000), SetCr4 (cr4 s3 OR 0x20), SetCr3 (pdpt s3),
     SetCr0 ((cr0 s3 AND NOT 0x80000000) OR 0x80000000)]" by (simp add: tk s4_def enable_fields)
  moreover obtain e2 e3 where "io s2 = io s1 @ e2" "list_all cpu_event e2" "io s3 = io s2 @ e3" "list_all cpu_event e3"
    using k2 k3 by blast
  ultimately show "\<exists>es. io t = io s @ es \<and> list_all cpu_event es"
    using I(3) by (simp add: cpu_event_def)
qed

section \<open>The whole boot\<close>

text \<open>The kernel is up: paging is on with the first 32 MB in place, every gate leads to its stub, and
  all output so far could be performed.\<close>

definition kernel_up :: "image \<Rightarrow> 'a timing_scheme \<Rightarrow> bool" where
  "kernel_up img s \<longleftrightarrow> paging_ok s \<and> identity_kept s \<and> cr3 s = pdpt s \<and> bit (cr4 s) 5 \<and> bit (cr0 s) 31 \<and>
     (\<forall>n<32. gate_to (isr_stub img n) (idt s ! n)) \<and> (\<forall>n<16. gate_to (irq_stub img n) (idt s ! (32 + n))) \<and>
     list_all kcall_ok (kout s)"

lemma kernel_main_state:
  assumes dev: "kbc_answers dev" "a20_opens dev" "pics_present dev p1 p2" and icw: "icw p1 = 0" "icw p2 = 0"
  shows "\<exists>s h. kernel_main dev img (kernel_power_on m) = Some s \<and> kernel_up img s \<and>
    (\<forall>v. drop_bit 9 v \<in> slots \<longrightarrow> \<not> unat v < 8192 \<longrightarrow> pte s v = 0) \<and>
    io s = h @ [Sti, HaltLoop] \<and> Sti \<notin> set h \<and> HaltLoop \<notin> set h \<and> Lidt (idt_address img) 2047 \<in> set h \<and>
    a20_line dev h \<and> a20_line dev (io s) \<and>
    (\<forall>line<16. irq_vector (pic_after 0x20 p1 h) (pic_after 0xA0 p2 h) line = 32 + line) \<and>
    (\<forall>n. bit (line_mask (pic_after 0x20 p1 h)) n \<longleftrightarrow> n \<noteq> 0 \<and> n \<noteq> 1 \<and> bit (line_mask p1) n) \<and>
    line_mask (pic_after 0xA0 p2 h) = line_mask p2 \<and>
    current_mode s = 0 \<and> \<not> vesa_mode_active s \<and> \<not> shift_pressed s \<and> \<not> alt_pressed s \<and> \<not> caps_lock s"
proof -
  define s0 where "s0 = printk ''Enabled protected mode.\<newline>'' [] (printk ''LikeOS-NG kernel booting...\<newline>'' []
    (emit KClear (kernel_power_on m)))"
  obtain s1 es where A: "enable_a20_gate dev s0 = Some s1" "says s0 s1"
    "s1 = s0\<lparr>mem := mem s1, kout := kout s1, io := io s1\<rparr>" "io s1 = io s0 @ es" "list_all a20_event es"
    "if a20_line dev (io s0) then es = [] else a20_request es"
    using enable_a20_gate_state [OF dev(1), of s0] by blast
  define s2 where "s2 = timing_init dev s1"
  define s3 where "s3 = idt_install img s2"
  define s4 where "s4 = printk ''IDT initialized.\<newline>'' [] s3"
  define s5 where "s5 = kernel_memory_init s4"
  define s6 where "s6 = kernel_paging_init s5"
  define s8 where "s8 = printk ''VGA driver initialized.\<newline>'' []
    (snd (vga_init (printk ''Keyboard initialized.\<newline>'' [] (keyboard_init s6))))"
  define s9 where "s9 = irq_install dev img s8"
  define s where "s = hw HaltLoop (printk ''System ready.\<newline>'' [] (hw Sti (printk ''Enabling interrupts...\<newline>'' []
    (printk ''IRQ handlers installed.\<newline>'' [] s9))))"
  have main: "kernel_main dev img (kernel_power_on m) = Some s"
    by (simp add: kernel_main_def Let_def case_prod_beta A(1) s_def s9_def s8_def s6_def s5_def s4_def s3_def s2_def flip: s0_def)
  note T = timing_init_state [where dev = dev and s = s1, folded s2_def]
  obtain m1 k1 h1 where s1: "s1 = s0\<lparr>mem := m1, kout := k1, io := h1\<rparr>" using A(3) by blast
  obtain k2 h2 f2 where s2: "s2 = s1\<lparr>kout := k2, io := h2, tsc_frequency := f2\<rparr>" using T(1) by blast
  have l2: "length (idt s2) = 256" "fresh_paging s2" "\<not> pmm_initialized s2" "length (pmm_regions s2) = 16"
    using kernel_power_on_facts kernel_power_on_fresh [of m]
    by (simp_all add: s2 s1 fresh_paging_def s0_def emit_def)
  note D = idt_install_state [where img = img, OF l2(1), folded s3_def]
  obtain y z where s3: "s3 = s2\<lparr>idt := y, io := z\<rparr>" using D(1) by blast
  have l4: "fresh_paging s4" "\<not> pmm_initialized s4" "length (pmm_regions s4) = 16"
    using l2 by (simp_all add: s4_def s3 fresh_paging_def emit_def)
  note P = kernel_memory_init_state [OF l4(2,3), folded s5_def]
  have "fresh_paging s5" using fresh_paging_more [OF P(1)] l4(1) by simp
  note G = kernel_paging_init_state [OF this, folded s6_def]
  have more6: "paging.more s6 = paging.more s4" using G(6) pmm_more_paging [OF P(1)] by simp
  note F6 = driver_fields [OF more6]
  obtain es6 where es6: "io s6 = io s4 @ es6" "list_all cpu_event es6" using G(8) P(2) by auto
  have "s8 = s6\<lparr>kout := kout s8, shift_pressed := False, caps_lock := False, alt_pressed := False,
      vesa_mode_active := False, current_mode := 0\<rparr>"
    unfolding s8_def vga_init_def keyboard_init_def Let_def emit_def by simp
  then obtain k8 where s8: "s8 = s6\<lparr>kout := k8, shift_pressed := False, caps_lock := False, alt_pressed := False,
      vesa_mode_active := False, current_mode := 0\<rparr>" by blast
  have idt8: "idt s8 = idt s3" by (simp add: s8 F6(1)) (simp add: s4_def emit_def)
  have io8: "io s8 = (io s0 @ es) @ [Rdtsc, Spin 5000000, Rdtsc, Lidt (idt_address img) 2047] @ es6"
    using arg_cong [OF T(1), of io] arg_cong [OF D(1), of io] by (simp add: s8 es6(1)) (simp add: s4_def A(4))
  have io0: "io s0 = []" by (simp add: s0_def)
  have pf: "list_all pic_free (es @ [Rdtsc, Spin 5000000, Rdtsc, Lidt (idt_address img) 2047] @ es6)"
    using A(5) cpu_events [OF es6(2)] event_classes(2) by (auto simp: list_all_iff pic_free_def)
  have p8: "pic_after 0x20 p1 (io s8) = p1" "pic_after 0xA0 p2 (io s8) = p2"
    using pic_after_free [OF pf, of "0x20" p1 "[]"] pic_after_free [OF pf, of "0xA0" p2 "[]"]
    by (simp_all add: io8 io0) (simp_all add: pic_after_def)
  have l8: "length (idt s8) = 256" using D(2) by (simp add: idt8)
  have ic8: "icw (pic_after 0x20 p1 (io s8)) = 0" "icw (pic_after 0xA0 p2 (io s8)) = 0" using p8 icw by simp_all
  note I = irq_install_state [where img = img, OF dev(3) l8 ic8, folded s9_def, unfolded p8]
  obtain y9 z9 where s9: "s9 = s8\<lparr>idt := y9, io := z9\<rparr>" using I(1) by blast
  have idts: "idt s = idt s9" by (simp add: s_def emit_def hw_def)
  have same: "mem s = mem s6" "pdpt s = pdpt s6" "page_directories s = page_directories s6" "free_list_head s = free_list_head s6"
    "next_free_page s = next_free_page s6" "cr3 s = cr3 s6" "cr4 s = cr4 s6" "cr0 s = cr0 s6"
    by (simp_all add: s_def s9 s8 emit_def hw_def)
  note C = paging_ok_cong [OF same(1-5)]
  have flags: "current_mode s = 0" "\<not> vesa_mode_active s" "\<not> shift_pressed s" "\<not> alt_pressed s" "\<not> caps_lock s"
    by (simp_all add: s_def s9 s8 emit_def hw_def)
  obtain es9 where es9: "io s9 = io s8 @ es9" "list_all pic_access es9" using I(12) by blast
  define h where "h = io s9"
  have ios: "io s = h @ [Sti, HaltLoop]" by (simp add: s_def h_def)
  have free: "Sti \<notin> set h" "HaltLoop \<notin> set h"
    using no_enabling(1) [OF pf] no_enabling(2) [OF es9(2)] by (simp_all add: h_def es9(1) io8 io0)
  have lidt: "Lidt (idt_address img) 2047 \<in> set h" by (simp add: h_def es9(1) io8)
  have line: "a20_line dev (io s0 @ es)" using A(6) dev(2) by (auto simp: a20_opens_def split: if_splits)
  have "list_all a20_kept ([Rdtsc, Spin 5000000, Rdtsc, Lidt (idt_address img) 2047] @ es6 @ es9 @ [Sti, HaltLoop])"
    using cpu_events [OF es6(2)] access_kept [OF es9(2)] by (simp add: kept_consts)
  then have a20: "a20_line dev (io s)" "a20_line dev h"
    using a20_stays [OF dev(2) line] by (simp_all add: ios h_def es9(1) io8)
  have "says (kernel_power_on m) s0" unfolding s0_def by (intro says_emit says_refl) (simp_all add: call_simps)
  then have "says (kernel_power_on m) s2" using A(2) T(2) by (blast intro: says_trans)
  then have "says (kernel_power_on m) s3" by (rule says_keep) (simp add: s3)
  then have "says (kernel_power_on m) s4" unfolding s4_def by (rule says_emit) (simp add: call_simps)
  then have "says (kernel_power_on m) s6" using P(3) G(7) by (blast intro: says_trans)
  then obtain ks where ks: "kout s6 = kout (kernel_power_on m) @ ks" "list_all kcall_ok ks" by (auto simp: says_def)
  have "says (kernel_power_on m) s8"
    using ks by (simp add: s8_def vga_init_def keyboard_init_def Let_def says_def call_simps)
  then have "says (kernel_power_on m) s9" by (rule says_keep) (simp add: s9)
  then have "says (kernel_power_on m) s" unfolding s_def
    by (intro says_emit says_hw) (simp_all add: call_simps)
  then have out: "list_all kcall_ok (kout s)" by (simp add: says_def)
  have isr: "gate_to (isr_stub img n) (idt s ! n)" if "n < 32" for n
    using D(3) [OF that] I(3) [OF that] by (simp add: idts idt8)
  have irq: "gate_to (irq_stub img n) (idt s ! (32 + n))" if "n < 16" for n
    using I(4,5) [OF that] by (simp add: idts)
  have "identity_kept s" unfolding identity_kept_def
  proof (intro allI impI)
    fix v :: u32 assume v: "unat v < 8192"
    then have "drop_bit 9 v \<in> slots" by (simp add: slots_def unat_drop_bit32)
    then show "pte s v = identity_pte v" using G(2) v by (simp add: C(2))
  qed
  then have "kernel_up img s" unfolding kernel_up_def using C(1) G(1,3,4,5) isr irq out by (simp add: same)
  moreover have "\<forall>v. drop_bit 9 v \<in> slots \<longrightarrow> \<not> unat v < 8192 \<longrightarrow> pte s v = 0" using G(2) by (simp add: C(2))
  ultimately show ?thesis
    using main ios free lidt a20 I(5,10,11) flags unfolding h_def by blast
qed

text \<open>The translation of a state whose tables are in order and map nothing else.\<close>

lemma exact_walk:
  assumes "paging_ok s" "identity_kept s" "\<forall>v. drop_bit 9 v \<in> slots \<longrightarrow> \<not> unat v < 8192 \<longrightarrow> pte s v = 0"
  shows "pae_walk (mem s) (pdpt s) va = (if unat va < 0x2000000 then Some (ucast va) else None)"
proof (cases "unat va < 0x2000000")
  case True
  then show ?thesis using identity_walk [OF assms(1,2)] by simp
next
  case False
  obtain U n where inv: "tables_inv s U n" and w: "walk_inv s" using assms(1) by (auto simp: paging_ok_def)
  have "pte s (page_no va) = 0" using assms(3) False slot_of_va [of va] by (simp add: page_no_low)
  then show ?thesis unfolding pae_walk_leaf [OF inv w] using False by (simp add: present_def)
qed

lemma console_total: "list_all kcall_ok ks \<Longrightarrow> \<exists>c'. console_run ks c = Some c'"
  by (rule console_run_total)

text \<open>C1: \<open>kernel_main\<close> brings the machine up, from any contents of memory, on hardware that behaves as
  documented: it returns from every wait; when it enables interrupts the A20 line is open, the
  processor translates exactly the addresses below 32 MB, each to itself, every exception
  vector and every vector the two interrupt controllers are set to has a gate to its stub, and of
  the lines of the first controller the timer and the keyboard are unmasked; interrupts are
  enabled once, after all this, and everything it printed could be displayed.\<close>
theorem kernel_main_boots:
  assumes "kbc_answers dev" "a20_opens dev" "pics_present dev p1 p2" "icw p1 = 0" "icw p2 = 0"
  shows "\<exists>s h. kernel_main dev img (kernel_power_on m) = Some s \<and> io s = h @ [Sti, HaltLoop] \<and> Sti \<notin> set h \<and>
    a20_line dev h \<and> bit (cr4 s) 5 \<and> bit (cr0 s) 31 \<and>
    (\<forall>va. pae_walk (mem s) (cr3 s) va = (if unat va < 0x2000000 then Some (ucast va) else None)) \<and>
    Lidt (idt_address img) 2047 \<in> set h \<and> (\<forall>n<32. gate_to (isr_stub img n) (idt s ! n)) \<and>
    (\<forall>line<16. gate_to (irq_stub img line) (idt s ! irq_vector (pic_after 0x20 p1 h) (pic_after 0xA0 p2 h) line)) \<and>
    (\<forall>n. bit (line_mask (pic_after 0x20 p1 h)) n \<longleftrightarrow> n \<noteq> 0 \<and> n \<noteq> 1 \<and> bit (line_mask p1) n) \<and>
    (\<forall>c. \<exists>c'. console_run (kout s) c = Some c')"
proof -
  obtain s h where S: "kernel_main dev img (kernel_power_on m) = Some s" "kernel_up img s"
    "\<forall>v. drop_bit 9 v \<in> slots \<longrightarrow> \<not> unat v < 8192 \<longrightarrow> pte s v = 0"
    "io s = h @ [Sti, HaltLoop]" "Sti \<notin> set h" "Lidt (idt_address img) 2047 \<in> set h" "a20_line dev h"
    "\<forall>line<16. irq_vector (pic_after 0x20 p1 h) (pic_after 0xA0 p2 h) line = 32 + line"
    "\<forall>n. bit (line_mask (pic_after 0x20 p1 h)) n \<longleftrightarrow> n \<noteq> 0 \<and> n \<noteq> 1 \<and> bit (line_mask p1) n"
    using kernel_main_state [OF assms, of img m] by blast
  note up = S(2) [unfolded kernel_up_def]
  have "pae_walk (mem s) (cr3 s) va = (if unat va < 0x2000000 then Some (ucast va) else None)" for va
    using exact_walk [OF _ _ S(3)] up by simp
  moreover have "\<exists>c'. console_run (kout s) c = Some c'" for c using console_total up by blast
  ultimately show ?thesis using S up by (intro exI [of _ s] exI [of _ h]) simp
qed

lemma pc_device_facts: "kbc_answers pc_device" "a20_opens pc_device"
  by (auto simp: pc_device_def kbc_answers_def a20_opens_def idle_device_def a20_request_def)

lemma bios_pic_ready: "icw (bios_pic b l) = 0"
  by (simp add: bios_pic_def)

theorem kernel_main_boots_witness:
  "\<exists>s. kernel_main pc_device kernel_image (kernel_power_on (\<lambda>_. 0)) = Some s \<and>
     pae_walk (mem s) (cr3 s) 0xB8000 = Some 0xB8000 \<and> pae_walk (mem s) (cr3 s) 0x2000000 = None"
proof -
  obtain s where s: "kernel_main pc_device kernel_image (kernel_power_on (\<lambda>_. 0)) = Some s"
    "\<forall>va. pae_walk (mem s) (cr3 s) va = (if unat va < 0x2000000 then Some (ucast va) else None)"
    using kernel_main_boots [OF pc_device_facts pc_device_pics bios_pic_ready bios_pic_ready, of kernel_image "\<lambda>_. 0"] by blast
  show ?thesis using s(1) s(2) [rule_format, of "0xB8000"] s(2) [rule_format, of "0x2000000"] by simp
qed

end
