(* ===== verification/Kernel_Run.thy ===== *)
theory Kernel_Run
  imports Kernel_Boot Display_Props
begin

text \<open>
  The running kernel: after \<open>kernel_main\<close> the processor only executes interrupt handlers. Its
  states are those reached from a finished boot by hardware interrupts in any order; an
  exception stops it.
\<close>

section \<open>The running kernel\<close>

inductive kernel_reaches :: "device \<Rightarrow> image \<Rightarrow> memory \<Rightarrow> timing \<Rightarrow> bool" for dev img m where
  booted: "kernel_main dev img (kernel_power_on m) = Some s \<Longrightarrow> kernel_reaches dev img m s"
| interrupt: "kernel_reaches dev img m s \<Longrightarrow> irq_common_stub dev frame s = Some s' \<Longrightarrow> kernel_reaches dev img m s'"

text \<open>
  The display the driver can handle: the frame buffer it uses (its defaults filled in) lies
  above the first 32 MB and below 4 GB, page aligned, with four bytes for each pixel, and the
  depth is at most 32 bits and not 24.
\<close>

definition frame_buffer :: "device \<Rightarrow> hw_event list \<Rightarrow> u32" where
  "frame_buffer dev h = (if lfb_address dev h = 0 then 0xE0000000 else lfb_address dev h)"

definition frame_size :: "device \<Rightarrow> hw_event list \<Rightarrow> u32 \<times> u32" where
  "frame_size dev h = (if mode_width dev h = 0 \<or> mode_height dev h = 0 then (1024, 768) else (mode_width dev h, mode_height dev h))"

definition display_fits :: "device \<Rightarrow> bool" where
  "display_fits dev \<longleftrightarrow> (\<forall>h. page_aligned (frame_buffer dev h) \<and> 0x2000000 \<le> unat (frame_buffer dev h) \<and>
     unat (frame_buffer dev h) + 4 * (unat (fst (frame_size dev h)) * unat (snd (frame_size dev h))) \<le> 4294967296 \<and>
     mode_bpp dev h \<le> 32 \<and> mode_bpp dev h \<noteq> 24)"

section \<open>Clearing the graphics screen\<close>

lemma map_framebuffer_keeps:
  assumes "paging_ok s" "\<forall>j<k. 8192 \<le> unat (page_no (lfb + (i + of_nat j) * 4096))"
  shows "\<exists>t. map_framebuffer lfb k i s = (True, t) \<and> paging_ok t \<and> identity_kept t = identity_kept s \<and>
    paging_keeps s t \<and> kout t = kout s \<and> pdpt t = pdpt s"
  using assms
proof (induction k arbitrary: i s)
  case (Suc k)
  obtain r s1 where c: "map_page (lfb + i * 4096) (ucast (lfb + i * 4096)) (1 OR 2 OR 0x10) s = (r, s1)" by fastforce
  note M = paging_ok_map_page [OF Suc.prems(1) c]
  have "8192 \<le> unat (page_no (lfb + i * 4096))" using Suc.prems(2) [rule_format, of 0] by simp
  then have "pte s1 v = pte s v" if "unat v < 8192" for v
    using M(7) [of v] that by (auto simp: slots_def unat_drop_bit32)
  then have ik: "identity_kept s1 = identity_kept s" by (simp add: identity_kept_def)
  have "\<forall>j<k. 8192 \<le> unat (page_no (lfb + (i + 1 + of_nat j) * 4096))"
  proof (intro allI impI)
    fix j assume "j < k"
    then show "8192 \<le> unat (page_no (lfb + (i + 1 + of_nat j) * 4096))"
      using Suc.prems(2) [rule_format, of "Suc j"] by (simp add: add.assoc)
  qed
  from Suc.IH [OF M(2) this] obtain t where t: "map_framebuffer lfb k (i + 1) s1 = (True, t)" "paging_ok t"
    "identity_kept t = identity_kept s1" "paging_keeps s1 t" "kout t = kout s1" "pdpt t = pdpt s1" by blast
  have "map_framebuffer lfb (Suc k) i s = (True, t)" using c M(1) t(1) by simp
  moreover have "paging_keeps s t" by (rule paging_keeps_trans [OF M(6) t(4)])
  ultimately show ?case using t ik M(4,5) by simp
qed simp

lemma clear_screen_now_keeps:
  assumes fits: "display_fits dev" and ok: "paging_ok s"
  defines "t \<equiv> vga_clear_screen_now dev s"
  shows "paging_ok t" "identity_kept t = identity_kept s" "paging_keeps s t" "kout t = kout s" "pdpt t = pdpt s"
proof -
  define lfb where "lfb = frame_buffer dev (io s)"
  define w where "w = fst (frame_size dev (io s))"
  define h where "h = snd (frame_size dev (io s))"
  define bpp where "bpp = mode_bpp dev (io s)"
  define size where "size = w * h * ((bpp + 7) div 8)"
  define k where "k = (size + 4096 - 1) div 4096"
  have F: "0x2000000 \<le> unat lfb" "unat lfb + 4 * (unat w * unat h) \<le> 4294967296" "bpp \<le> 32"
    using fits by (auto simp: display_fits_def lfb_def w_def h_def bpp_def)
  have wh: "unat (w * h) = unat w * unat h" using F by (intro unat_mult_small) linarith
  have b: "unat ((bpp + 7) div 8) \<le> 4"
  proof -
    have "unat (bpp + 7) \<le> 39" using F(3) by (subst unat_add_small) (simp_all add: word_le_nat_alt)
    then show ?thesis by (simp add: unat_div)
  qed
  have le: "unat w * unat h * unat ((bpp + 7) div 8) \<le> 4 * (unat w * unat h)"
    using mult_le_mono2 [OF b, of "unat w * unat h"] by (simp only: mult.commute)
  have sz: "unat size \<le> 4 * (unat w * unat h)"
  proof -
    have "unat (w * h) * unat ((bpp + 7) div 8) < 4294967296" unfolding wh using le F(1,2) by linarith
    then show ?thesis unfolding size_def using le by (simp only: unat_mult_small wh)
  qed
  have pg: "8192 \<le> unat (page_no (lfb + (0 + of_nat j) * 4096))" if j: "j < unat k" for j
  proof -
    have "size + 4096 - 1 = size + 4095" by simp
    moreover have "unat (size + 4095) = unat size + 4095" using sz F(1,2) by (subst unat_add_small) simp_all
    ultimately have "unat k = (unat size + 4095) div 4096" unfolding k_def by (simp only: unat_div) simp
    then have "4096 * j < unat size" using j by linarith
    then have s1: "unat lfb + 4096 * j < 4294967296" using sz F(2) by linarith
    have "(0 + of_nat j) * 4096 = (of_nat (4096 * j) :: u32)" by simp
    then have "unat (lfb + (0 + of_nat j) * 4096) = unat lfb + 4096 * j"
      using s1 by (simp add: unat_add_small unat_of_nat_small del: of_nat_mult)
    then show ?thesis using F(1) by (simp add: unat_page_no)
  qed
  obtain u where u: "map_framebuffer lfb (unat k) 0 s = (True, u)" "paging_ok u"
    "identity_kept u = identity_kept s" "paging_keeps s u" "kout u = kout s" "pdpt u = pdpt s"
    using map_framebuffer_keeps [OF ok, of "unat k" lfb 0] pg by blast
  have t: "t = (if bpp = 16 then u\<lparr>mem := for_lt (w * h) (\<lambda>i. store16 (lfb + 2 * i) 0xFFFF) (mem u)\<rparr>
      else if bpp = 24 \<or> bpp = 32 then u\<lparr>mem := for_lt (w * h) (\<lambda>i. store32 (lfb + 4 * i) 0x00FFFFFF) (mem u)\<rparr>
      else u)"
    unfolding t_def vga_clear_screen_now_def Let_def frame_buffer_def [symmetric] frame_size_def [symmetric]
      lfb_def [symmetric] bpp_def [symmetric] case_prod_beta w_def [symmetric] h_def [symmetric]
      size_def [symmetric] k_def [symmetric] u(1) by simp
  have p: "unat lfb + 4 * unat (w * h) \<le> 4294967296" "unat lfb + 2 * unat (w * h) \<le> 4294967296" using F by (simp_all add: wh)
  have high: "\<not> in_range lfb n x" if "unat x < 0x2000000" for n x using that F(1) by (simp add: in_range_def)
  have "\<exists>m. t = u\<lparr>mem := m\<rparr> \<and> (\<forall>x. unat x < 0x2000000 \<longrightarrow> m x = mem u x)"
    unfolding t fill_white32 [OF p(1)] fill_white16 [OF p(2)] by (auto simp: high intro: exI [of _ "mem u"])
  then obtain m where m: "t = u\<lparr>mem := m\<rparr>" "\<forall>x. unat x < 0x2000000 \<longrightarrow> m x = mem u x" by blast
  note W = paging_ok_write_high [OF u(2) m(2), folded m(1)]
  show "paging_ok t" by (rule W(1))
  have "pte t v = pte u v" if "unat v < 8192" for v using W(2) [of v] that by (simp add: slots_def unat_drop_bit32)
  then show "identity_kept t = identity_kept s" using u(3) by (simp add: identity_kept_def)
  show "paging_keeps s t" "kout t = kout s" "pdpt t = pdpt s"
    using u(4-6) by (simp_all add: m(1) paging_keeps_def)
qed

section \<open>What keeps the kernel up\<close>

lemma kernel_up_cong:
  fixes s t :: "'a timing_scheme"
  assumes "kernel_up img s" "mem t = mem s" "pdpt t = pdpt s" "page_directories t = page_directories s"
    "free_list_head t = free_list_head s" "next_free_page t = next_free_page s"
    "cr0 t = cr0 s" "cr3 t = cr3 s" "cr4 t = cr4 s" "idt t = idt s" "list_all kcall_ok (kout t)"
  shows "kernel_up img t"
proof -
  note C = paging_ok_cong [OF assms(2-6)]
  have "identity_kept t = identity_kept s" by (simp add: identity_kept_def C(2))
  then show ?thesis using assms C(1) by (simp add: kernel_up_def)
qed

lemma kernel_up_out: "kernel_up img s \<Longrightarrow> list_all kcall_ok (kout s)"
  by (simp add: kernel_up_def)

lemma kernel_up_emit: "kernel_up img s \<Longrightarrow> kcall_ok k \<Longrightarrow> kernel_up img (emit k s)"
  by (frule kernel_up_out, erule kernel_up_cong) (simp_all add: emit_def)

lemma kernel_up_hw: "kernel_up img s \<Longrightarrow> kernel_up img (hw e s)"
  by (frule kernel_up_out, erule kernel_up_cong) (simp_all add: hw_def)

lemma kernel_up_fields:
  fixes s :: "'a timing_scheme"
  assumes "kernel_up img s"
  shows "kernel_up img (s\<lparr>io := h\<rparr>)" "kernel_up img (s\<lparr>current_mode := i\<rparr>)" "kernel_up img (s\<lparr>shift_pressed := b\<rparr>)"
    "kernel_up img (s\<lparr>alt_pressed := b\<rparr>)" "kernel_up img (s\<lparr>caps_lock := b\<rparr>)" "kernel_up img (s\<lparr>vesa_mode_active := b\<rparr>)"
  using kernel_up_out [OF assms] by (intro kernel_up_cong [OF assms]; simp)+

lemma kernel_up_clear:
  fixes s :: "'a timing_scheme"
  assumes "display_fits dev" "kernel_up img s"
  shows "kernel_up img (vga_clear_screen_now dev s)"
proof -
  have "paging_ok s" using assms(2) by (simp add: kernel_up_def)
  note K = clear_screen_now_keeps [OF assms(1) this]
  have "idt (vga_clear_screen_now dev s) = idt s" using K(3) by (intro driver_fields(1)) (simp add: paging_keeps_def)
  then show ?thesis using assms(2) K by (simp add: kernel_up_def paging_keeps_def)
qed

lemma display_messages_ok:
  "kcall_ok (KPrintf ''VGA: Resolution: %dx%d, %d bpp, LFB at 0x%08X\<newline>'' [KInt a, KInt b, KInt c, KInt d])"
  "kcall_ok (KPrintf ''VGA: Failed to set VESA mode (error %d)\<newline>'' [KInt a])"
  by (simp_all add: call_simps parse_padding_def is_digit_def)

lemmas up_intros = kernel_up_emit kernel_up_hw kernel_up_fields kernel_up_clear

lemma kernel_up_print: "kernel_up img s \<Longrightarrow> CHR ''%'' \<notin> set str \<Longrightarrow> kernel_up img (printk str [] s)"
  by (intro kernel_up_emit) (simp_all add: plain_call_ok)

lemma kernel_up_vesa:
  fixes s :: "'a timing_scheme"
  assumes "display_fits dev" "kernel_up img s"
  shows "kernel_up img (snd (vga_set_vesa_mode_1024x768 dev s))"
proof -
  define s1 where "s1 = hw VesaSetMode (printk ''VGA: Attempting to set VESA 1024x768 mode...\<newline>'' [] s)"
  define s2 where "s2 = (printk ''VGA: Resolution: %dx%d, %d bpp, LFB at 0x%08X\<newline>''
    [KInt (mode_width dev (io s1)), KInt (mode_height dev (io s1)), KInt (mode_bpp dev (io s1)), KInt (lfb_address dev (io s1))]
    (printk ''VGA: VESA mode set successfully!\<newline>'' [] s1))\<lparr>current_mode := 1\<rparr>"
  have u1: "kernel_up img s1" unfolding s1_def by (intro kernel_up_hw kernel_up_print assms) simp
  then have "kernel_up img s2" unfolding s2_def
    by (intro kernel_up_fields kernel_up_emit [OF _ display_messages_ok(1)] kernel_up_print) simp_all
  then have "kernel_up img (vga_clear_screen_now dev s2)" by (rule kernel_up_clear [OF assms(1)])
  moreover have "kernel_up img (printk ''VGA: Failed to set VESA mode (error %d)\<newline>'' [KInt (vesa_set_mode dev (io s1))] s1)"
    by (rule kernel_up_emit [OF u1 display_messages_ok(2)])
  moreover have "snd (vga_set_vesa_mode_1024x768 dev s) = (if vesa_set_mode dev (io s1) = 0 then vga_clear_screen_now dev s2
    else printk ''VGA: Failed to set VESA mode (error %d)\<newline>'' [KInt (vesa_set_mode dev (io s1))] s1)"
  proof -
    have "current_mode s2 = 1" by (simp add: s2_def)
    then show ?thesis
      unfolding vga_set_vesa_mode_1024x768_def vga_clear_screen_def Let_def s1_def [symmetric] s2_def [symmetric] by simp
  qed
  ultimately show ?thesis by simp
qed

lemma kernel_up_text:
  fixes s :: "'a timing_scheme"
  assumes "kernel_up img s"
  shows "kernel_up img (vga_set_text_mode_80x25 dev s)"
  unfolding vga_set_text_mode_80x25_def Let_def using assms
  by (auto intro!: kernel_up_print kernel_up_fields kernel_up_hw)

lemma kernel_up_toggle:
  fixes s :: "'a timing_scheme"
  assumes "display_fits dev" "kernel_up img s"
  shows "kernel_up img (toggle_mode dev s)"
proof (cases "vesa_mode_active s")
  case True
  then show ?thesis unfolding toggle_mode_def Let_def
    by simp (intro kernel_up_print kernel_up_fields kernel_up_text assms; simp)
next
  case False
  define s1 where "s1 = printk ''\<newline>Switching to VESA mode via Alt+G...\<newline>'' [] s"
  have "kernel_up img s1" unfolding s1_def by (intro kernel_up_print assms) simp
  note V = kernel_up_vesa [OF assms(1) this]
  obtain r s2 where c: "vga_set_vesa_mode_1024x768 dev s1 = (r, s2)" by fastforce
  have "kernel_up img s2" using V c by simp
  then show ?thesis using False unfolding toggle_mode_def Let_def s1_def [symmetric] c
    by (auto intro!: kernel_up_print kernel_up_fields)
qed

lemma kernel_up_keyboard:
  fixes s :: "'a timing_scheme"
  assumes "display_fits dev" "kernel_up img s"
  shows "kernel_up img (keyboard_handler dev scancode s)"
proof -
  have "kernel_up img (printk ''\<newline>'' [] s)" "kernel_up img (printk ''    '' [] s)"
    by (rule kernel_up_print [OF assms(2)]; simp)+
  then have "kernel_up img (put_key c s)" for c
    using kernel_up_emit [OF assms(2), of "KPutchar c"] kernel_up_emit [OF assms(2), of "KPutchar CHR 0x08"] assms(2)
    by (simp add: put_key_def)
  then show ?thesis unfolding keyboard_handler_def Let_def
    using assms kernel_up_toggle by (auto intro!: kernel_up_fields kernel_up_emit)
qed

lemma kernel_up_irq:
  fixes s :: "'a timing_scheme"
  assumes "display_fits dev" "kernel_up img s"
  shows "\<exists>s'. irq_common_stub dev frame s = Some s' \<and> kernel_up img s'"
  unfolding irq_common_stub_eq Let_def
  by (auto intro!: kernel_up_fields kernel_up_keyboard kernel_up_hw assms)

section \<open>Every reachable state\<close>

lemma reaches_up:
  assumes "kernel_reaches dev img m s"
    and "kbc_answers dev" "a20_opens dev" "pics_present dev p1 p2" "icw p1 = 0" "icw p2 = 0" "display_fits dev"
  shows "kernel_up img s"
  using assms(1)
proof (induction rule: kernel_reaches.induct)
  case (booted s)
  obtain s' where "kernel_main dev img (kernel_power_on m) = Some s'" "kernel_up img s'"
    using kernel_main_state [OF assms(2-6), of img m] by blast
  then show ?case using booted by simp
next
  case (interrupt s frame s')
  then show ?case using kernel_up_irq [OF assms(7) interrupt.IH, of frame] by auto
qed


lemma vesa_device_facts:
  "kbc_answers (vesa_device bpp)" "a20_opens (vesa_device bpp)" "pics_present (vesa_device bpp) (bios_pic 8 0xB8) (bios_pic 0x70 0x8F)"
  by (auto simp: vesa_device_def pc_device_def kbc_answers_def a20_opens_def pics_present_def idle_device_def a20_request_def)

lemma vesa_device_fits: "display_fits (vesa_device 32)"
  by (simp add: display_fits_def vesa_device_def frame_buffer_def frame_size_def aligned_def)


end
