(* ===== verification/Spec2Isabelle.thy ===== *)
theory Spec2Isabelle
  imports PMM_Props Paging_Props Console_Props Boot_Memory Timing_Props Display_Props Keyboard_Props Kernel_Run
begin

text \<open>
  LikeOS-NG, a 32-bit x86 kernel: a model of its C code and the theorems that make it correct.

  \<^bold>\<open>The program.\<close> A boot sector loads the kernel at \<^verbatim>\<open>0x8000\<close>, switches to protected mode and
  calls \<open>kernel_main\<close>. That starts the parts in turn: the text console, the A20 gate, the time
  stamp counter, the interrupt descriptor table, the bitmap allocator of physical pages, the
  page tables with an allocator of their own, the keyboard and display drivers and the
  interrupt controllers. Then it enables interrupts and halts; from there on only interrupt
  handlers run. All memory is physical memory or identically mapped, there is one thread of
  control, and the C code keeps its state in static variables.

  \<^bold>\<open>The machine\<close> (\<open>Prelude\<close>, \<open>Memory\<close>, \<open>Machine\<close>). Memory is a function from 32-bit addresses to
  bytes, read and written in cells of 4 and 8 bytes; the locale of a cell states its laws
  and is interpreted for each width. The record \<open>machine\<close> has the memory, the control registers,
  the ordered record \<open>kout\<close> of the calls the code makes to the console and the ordered record
  \<open>io\<close> of its port accesses and privileged instructions. The static variables of each
  component extend that record, in the order the components are linked: \<open>pmm\<close>, \<open>paging\<close>,
  \<open>display\<close>, \<open>keyboard\<close>, \<open>interrupts\<close>, \<open>timing\<close>; an operation of one component is polymorphic in
  the fields of the later ones and cannot change them.

  \<^bold>\<open>What is not the program's\<close> is a parameter. A \<open>device\<close> answers port reads, the time stamp
  counter, the A20 line, CR2 and the routines of \<^verbatim>\<open>vesa_bios.asm\<close>, each as a function of
  everything done to the hardware before. An \<open>image\<close> holds the addresses the linker gives the
  interrupt stubs and the table. What the code relies on is a named hypothesis with a concrete
  device that fulfils it: the keyboard controller answers (\<open>kbc_answers\<close>) and opens the A20
  line when told to (\<open>a20_opens\<close>), the counter runs (\<open>tsc_runs\<close>), two 8259A controllers are present
  (\<open>pics_present\<close>, a state machine over their ports), the frame buffer lies above 32 MB
  (\<open>display_fits\<close>).

  \<^bold>\<open>The parts\<close>, the source they model and what is shown.

  \<^item> \<^verbatim>\<open>lib/kprintf.c\<close>: \<open>Console\<close> has every function over the 4000 bytes of video memory and the
    cursor; a call whose behaviour C leaves undefined is \<open>None\<close>. \<open>Console_Screen\<close> proves that it
    refines a terminal of 2000 cells, \<open>Console_Format\<close> that the format interpreter prints
    exactly what the specification \<open>render\<close> says, \<open>Console_Props\<close> states the results: the
    round trip of numbers, the limits of padding, the hardware cursor.
  \<^item> \<^verbatim>\<open>memory/pmm.c\<close>: \<open>PMM\<close> has every function over the bitmap in memory; \<open>PMM_Bitmap\<close>, \<open>PMM_Init\<close>,
    \<open>PMM_Find\<close>, \<open>PMM_Ops\<close>, \<open>PMM_Region\<close> prove the invariant \<open>pmm_inv\<close> and each operation against
    the set of free pages; \<open>PMM_Live\<close> has the reachable states with the blocks clients hold,
    \<open>PMM_Report\<close> the output, \<open>PMM_Props\<close> the results.
  \<^item> \<open>Page_Source\<close> states the contract of an allocator of pages as locales; \<open>PMM_Source\<close> and
    \<open>Paging_List\<close> interpret it for the bitmap allocator and for the free list.
  \<^item> \<^verbatim>\<open>memory/paging.c\<close>: \<open>Paging\<close> has the free list and the page tables, \<open>A20\<close> the A20 gate.
    \<open>Paging_List\<close> and \<open>Paging_Pool\<close> prove the free list, \<open>Paging_Tables\<close>, \<open>Paging_Map\<close>, \<open>Paging_Ops\<close>,
    \<open>Paging_Setup\<close> and \<open>Paging_Init\<close> the tables as a map from virtual pages to entries;
    \<open>Paging_Walk\<close> has the processor's PAE translation as the reference and \<open>Paging_Props\<close> the
    results. \<open>Paging_Life\<close> has an invariant that does not wear out: mapping never fails.
    \<open>Boot_Memory\<close> puts both allocators on one memory.
  \<^item> \<^verbatim>\<open>drivers/vga.c\<close>: \<open>Display\<close>, with \<open>Display_Props\<close>; \<^verbatim>\<open>drivers/keyboard.c\<close>: \<open>Keyboard\<close>, with
    \<open>Keyboard_Props\<close>, where the US layout is written down key by key.
  \<^item> \<^verbatim>\<open>interrupt/idt.c\<close>: \<open>Interrupts\<close>; \<open>Interrupt_Props\<close> has the exception report and the handler
    of hardware interrupts, \<open>Interrupt_Routing\<close> the way of an interrupt through controllers
    and gates to its stub.
  \<^item> \<^verbatim>\<open>lib/timing.c\<close>: \<open>Timing\<close>, with \<open>Timing_Props\<close>.
  \<^item> \<^verbatim>\<open>kernel/kernel.c\<close>: \<open>Kernel\<close>, from the state of \<open>Power_On\<close>. \<open>Kernel_Boot\<close> proves the boot,
    \<open>Kernel_Run\<close> has the states hardware interrupts lead to and proves that all stay sound.

  \<^bold>\<open>How the code is read.\<close> Integers have the width of the C types, so they wrap. A loop with a
  counter is \<open>for_lt\<close> or a fold, a loop that may not end a \<open>partial_function\<close> whose \<open>None\<close> is not
  returning; no fuel is used. \<open>free_list_count\<close> ends by a measure, at the latest after 10000
  nodes. Output is recorded as calls with their arguments and performed by \<open>console_run\<close>, in
  order, since nothing reads the screen back. Busy loops are events with their iteration count.

  \<^bold>\<open>Not modelled.\<close> The assembly files (boot sector, kernel entry, interrupt stubs, the real-mode
  code of \<^verbatim>\<open>vesa_bios.asm\<close>) and the build files have no C semantics; BIOS calls are taken not
  to change the kernel's memory. An access to an unmapped page is not turned into a page fault:
  the theorems state which addresses are mapped instead. With the A20 line closed, only the
  test of the line sees the alias of memory. The kernel's code and stack are not part of the
  memory model beyond the addresses the code writes. A hardware interrupt that arrives between
  \<^verbatim>\<open>sti\<close> and the last message of \<open>kernel_main\<close> is taken as arriving after it, and handlers do not
  nest, as the stubs keep interrupts off. The block of \<open>kernel_main\<close> under \<^verbatim>\<open>#if 0\<close> is not
  compiled and not modelled.
\<close>

end
